theory Spec2Isabelle
  imports Main "HOL-Library.Word"
begin

unbundle bit_operations_syntax

section \<open>A shallow embedding of the BMP decoder (src/bmp.hpp)\<close>

text \<open>
  The decoder \<^verbatim>\<open>bmp::Reader::parse\<close> is a function from a byte buffer to an
  \<^verbatim>\<open>Image\<close>; it throws \<^verbatim>\<open>ParseError\<close> with a message. The embedding returns
  \<open>error + Image\<close>. Besides the thrown \<open>ParseError\<close> the error type has two outcomes
  that the C++ program does not report but that the embedding makes visible:
  \<open>OutOfBounds\<close>, an access through a pointer or a vector index outside the object it
  points into, and \<open>SignedOverflow\<close>, the negation of the least 32-bit integer in
  \<^verbatim>\<open>-m.width\<close>.

  Fixed-width header fields are words. \<^verbatim>\<open>size_t\<close> is taken to be 64 bits wide; sizes
  and offsets of that type are natural numbers, and the lemmas \<open>abs_width_bound\<close> and
  \<open>size_fits\<close> below show that the products the decoder forms stay below \<open>2 ^ 64\<close>.
  Arithmetic the source does in \<^verbatim>\<open>uint32_t\<close> is done on \<open>32 word\<close> or written with
  \<open>u32\<close>, so that it wraps as in the source. Memory allocation is assumed to succeed.

  A pointer into the input buffer is the suffix of the buffer that starts there, so
  \<^verbatim>\<open>p[i]\<close> is inside the buffer exactly when \<open>i\<close> is below the length of the suffix.
\<close>

type_synonym byte = "8 word"

datatype error = ParseError string | OutOfBounds | SignedOverflow

definition bindE :: "error + 'a \<Rightarrow> ('a \<Rightarrow> error + 'b) \<Rightarrow> error + 'b" where
  "bindE m f = (case m of Inl e \<Rightarrow> Inl e | Inr v \<Rightarrow> f v)"

definition u32 :: "nat \<Rightarrow> nat" where
  "u32 n = n mod 2 ^ 32"

subsection \<open>Byte readers (lines 47-58)\<close>

definition rd :: "byte list \<Rightarrow> nat \<Rightarrow> error + byte" where
  "rd p i = (if i < length p then Inr (p ! i) else Inl OutOfBounds)"

definition le16 :: "byte list \<Rightarrow> nat \<Rightarrow> error + 16 word" where
  "le16 p off =
     bindE (rd p off) (\<lambda>b0.
     bindE (rd p (off + 1)) (\<lambda>b1.
       Inr (ucast b0 OR push_bit 8 (ucast b1))))"

definition le32 :: "byte list \<Rightarrow> nat \<Rightarrow> error + 32 word" where
  "le32 p off =
     bindE (rd p off) (\<lambda>b0.
     bindE (rd p (off + 1)) (\<lambda>b1.
     bindE (rd p (off + 2)) (\<lambda>b2.
     bindE (rd p (off + 3)) (\<lambda>b3.
       Inr (ucast b0 OR push_bit 8 (ucast b1) OR push_bit 16 (ucast b2)
              OR push_bit 24 (ucast b3))))))"

subsection \<open>Data model (lines 60-158)\<close>

datatype DIBType = CORE_OS2_V1 | OS2_V2 | INFO | V2 | V3 | V4 | V5

text \<open>
  \<^verbatim>\<open>Compression\<close> and \<^verbatim>\<open>ColorSpaceType\<close> are enum classes over \<^verbatim>\<open>uint32_t\<close>
  that the parser fills by a cast from the file, so they hold any 32-bit value.
\<close>

definition BI_RGB :: "32 word" where "BI_RGB = 0"
definition BI_RLE8 :: "32 word" where "BI_RLE8 = 1"
definition BI_RLE4 :: "32 word" where "BI_RLE4 = 2"
definition BI_BITFIELDS :: "32 word" where "BI_BITFIELDS = 3"
definition BI_JPEG :: "32 word" where "BI_JPEG = 4"
definition BI_PNG :: "32 word" where "BI_PNG = 5"
definition BI_ALPHABITFIELDS :: "32 word" where "BI_ALPHABITFIELDS = 6"

definition LCS_sRGB :: "32 word" where "LCS_sRGB = 0x73524742"
definition PROFILE_EMBEDDED :: "32 word" where "PROFILE_EMBEDDED = 0x4D424544"

datatype RenderingIntent =
  LCS_GM_ABS_COLORIMETRIC | LCS_GM_BUSINESS | LCS_GM_GRAPHICS | LCS_GM_IMAGES

datatype PixelFormat = RGBA8 | BGRA8 | BGR8 | Gray8 | RawBitfields

text \<open>
  The one-letter fields \<^verbatim>\<open>r, g, b, a\<close> and \<^verbatim>\<open>x, y, z\<close> of the source carry a
  prefix here, since a record field is a constant of the theory.
\<close>

record Bitmasks =
  mask_r :: "32 word"
  mask_g :: "32 word"
  mask_b :: "32 word"
  mask_a :: "32 word"

record CIEXYZ =
  xyz_x :: "32 word"
  xyz_y :: "32 word"
  xyz_z :: "32 word"

record CIEXYZTRIPLE =
  ep_r :: CIEXYZ
  ep_g :: CIEXYZ
  ep_b :: CIEXYZ

record Metadata =
  dib_type :: DIBType
  width :: "32 word"
  height :: "32 word"
  planes :: "16 word"
  bpp :: "16 word"
  compression :: "32 word"
  image_size :: "32 word"
  ppm_x :: "32 word"
  ppm_y :: "32 word"
  color_used :: "32 word"
  color_important :: "32 word"
  has_masks :: bool
  masks :: Bitmasks
  cstype :: "32 word"
  endpoints :: CIEXYZTRIPLE
  gamma_red :: "32 word"
  gamma_green :: "32 word"
  gamma_blue :: "32 word"
  intent :: RenderingIntent
  embedded_profile :: "byte list"
  file_offset_pixels :: "32 word"
  header_size :: "32 word"
  file_size :: "32 word"

text \<open>\<^verbatim>\<open>width\<close> and \<^verbatim>\<open>height\<close> are \<^verbatim>\<open>int32_t\<close>: the words are read with \<open>sint\<close>.\<close>

definition top_down :: "Metadata \<Rightarrow> bool" where
  "top_down m = (sint (height m) < 0)"

text \<open>
  \<^verbatim>\<open>abs_height\<close> negates in 64 bits and truncates, which on the 32-bit word is the
  wrapping negation.
\<close>

definition abs_height :: "Metadata \<Rightarrow> 32 word" where
  "abs_height m = (if sint (height m) < 0 then - height m else height m)"

text \<open>
  Every decoder starts with
  \<^verbatim>\<open>W = m.width < 0 ? uint32_t(-m.width) : uint32_t(m.width)\<close>; the negation is done
  in \<^verbatim>\<open>int32_t\<close> and overflows for the least value.
\<close>

definition abs_width :: "Metadata \<Rightarrow> error + 32 word" where
  "abs_width m =
     (if sint (width m) < 0
      then (if width m = 0x80000000 then Inl SignedOverflow else Inr (- width m))
      else Inr (width m))"

record PaletteEntry =
  pe_b :: byte
  pe_g :: byte
  pe_r :: byte
  pe_a :: byte

record Image =
  meta :: Metadata
  format :: PixelFormat
  pixels :: "byte list"
  palette :: "PaletteEntry list"
  raw_masks :: Bitmasks
  raw_bits_per_pixel :: byte

definition zero_masks :: Bitmasks where
  "zero_masks = \<lparr>mask_r = 0, mask_g = 0, mask_b = 0, mask_a = 0\<rparr>"

definition zero_xyz :: CIEXYZ where
  "zero_xyz = \<lparr>xyz_x = 0, xyz_y = 0, xyz_z = 0\<rparr>"

text \<open>\<^verbatim>\<open>Metadata m{}\<close> with the three offsets of lines 210-212 stored.\<close>

definition init_meta :: "32 word \<Rightarrow> 32 word \<Rightarrow> 32 word \<Rightarrow> Metadata" where
  "init_meta off_bits dib_size fsize =
     \<lparr>dib_type = CORE_OS2_V1, width = 0, height = 0, planes = 1, bpp = 0,
      compression = BI_RGB, image_size = 0, ppm_x = 0, ppm_y = 0, color_used = 0,
      color_important = 0, has_masks = False, masks = zero_masks, cstype = LCS_sRGB,
      endpoints = \<lparr>ep_r = zero_xyz, ep_g = zero_xyz, ep_b = zero_xyz\<rparr>,
      gamma_red = 0, gamma_green = 0, gamma_blue = 0, intent = LCS_GM_IMAGES,
      embedded_profile = [], file_offset_pixels = off_bits, header_size = dib_size,
      file_size = fsize\<rparr>"

text \<open>\<^verbatim>\<open>Image img{}\<close> with \<^verbatim>\<open>meta\<close> and \<^verbatim>\<open>palette\<close> stored (lines 409-411).\<close>

definition init_image :: "Metadata \<Rightarrow> PaletteEntry list \<Rightarrow> Image" where
  "init_image m pal =
     \<lparr>meta = m, format = RGBA8, pixels = [], palette = pal, raw_masks = zero_masks,
      raw_bits_per_pixel = 0\<rparr>"

subsection \<open>Counted loops\<close>

text \<open>
  \<^verbatim>\<open>for (i = start; i < n; i += step) body\<close>, where the body may fail. The guard
  \<open>0 < step\<close> is true at every use.
\<close>

function for_loop ::
  "nat \<Rightarrow> nat \<Rightarrow> nat \<Rightarrow> (nat \<Rightarrow> 's \<Rightarrow> error + 's) \<Rightarrow> 's \<Rightarrow> error + 's" where
  "for_loop step i n body s =
     (if 0 < step \<and> i < n
      then (case body i s of Inl e \<Rightarrow> Inl e
            | Inr s' \<Rightarrow> for_loop step (i + step) n body s')
      else Inr s)"
  by pat_completeness auto
termination
  by (relation "measure (\<lambda>(step, i, n, body, s). n - i)") auto

declare for_loop.simps [simp del]

subsection \<open>Header parser (lines 184-347)\<close>

text \<open>Lines 243-252 (and, with the same text, 223-232): the fields of a 40-byte header.\<close>

definition read_info_fields :: "byte list \<Rightarrow> Metadata \<Rightarrow> error + Metadata" where
  "read_info_fields dib m =
     bindE (le32 dib 4) (\<lambda>w.
     bindE (le32 dib 8) (\<lambda>h.
     bindE (le16 dib 12) (\<lambda>pl.
     bindE (le16 dib 14) (\<lambda>bp.
     bindE (le32 dib 16) (\<lambda>cmpr.
     bindE (le32 dib 20) (\<lambda>isz.
     bindE (le32 dib 24) (\<lambda>px.
     bindE (le32 dib 28) (\<lambda>py.
     bindE (le32 dib 32) (\<lambda>cu.
     bindE (le32 dib 36) (\<lambda>ci.
       Inr (m\<lparr>width := w, height := h, planes := pl, bpp := bp, compression := cmpr,
              image_size := isz, ppm_x := px, ppm_y := py, color_used := cu,
              color_important := ci\<rparr>)))))))))))"

text \<open>Lines 214-219: BITMAPCOREHEADER, 16-bit signed width and height.\<close>

definition read_core :: "byte list \<Rightarrow> Metadata \<Rightarrow> error + Metadata" where
  "read_core dib m =
     bindE (le16 dib 4) (\<lambda>w.
     bindE (le16 dib 6) (\<lambda>h.
     bindE (le16 dib 8) (\<lambda>pl.
     bindE (le16 dib 10) (\<lambda>bp.
       Inr (m\<lparr>dib_type := CORE_OS2_V1, width := scast w, height := scast h,
              planes := pl, bpp := bp\<rparr>)))))"

text \<open>Lines 233-239: the 16-byte OS/2 header.\<close>

definition read_os2_short :: "byte list \<Rightarrow> Metadata \<Rightarrow> error + Metadata" where
  "read_os2_short dib m =
     bindE (le32 dib 4) (\<lambda>w.
     bindE (le32 dib 8) (\<lambda>h.
     bindE (le16 dib 12) (\<lambda>pl.
     bindE (le16 dib 14) (\<lambda>bp.
       Inr (m\<lparr>dib_type := OS2_V2, width := w, height := h, planes := pl, bpp := bp\<rparr>)))))"

text \<open>
  Lines 268-291: the channel masks. \<open>n\<close> is the length of the whole buffer; the sums
  \<^verbatim>\<open>14 + dib_size + 12\<close> are formed in \<^verbatim>\<open>uint32_t\<close>.
\<close>

definition read_rgb_masks :: "byte list \<Rightarrow> Metadata \<Rightarrow> error + Metadata" where
  "read_rgb_masks dib m =
     bindE (le32 dib 40) (\<lambda>mr.
     bindE (le32 dib 44) (\<lambda>mg.
     bindE (le32 dib 48) (\<lambda>mb.
       Inr (m\<lparr>masks := (masks m)\<lparr>mask_r := mr, mask_g := mg, mask_b := mb\<rparr>,
              has_masks := True\<rparr>))))"

definition read_alpha_mask :: "byte list \<Rightarrow> Metadata \<Rightarrow> error + Metadata" where
  "read_alpha_mask dib m =
     bindE (le32 dib 52) (\<lambda>ma. Inr (m\<lparr>masks := (masks m)\<lparr>mask_a := ma\<rparr>\<rparr>))"

definition read_masks :: "nat \<Rightarrow> byte list \<Rightarrow> 32 word \<Rightarrow> Metadata \<Rightarrow> error + Metadata" where
  "read_masks n dib dib_size m =
     (if compression m = BI_BITFIELDS \<or> compression m = BI_ALPHABITFIELDS
      then (if 52 \<le> dib_size
            then bindE (read_rgb_masks dib m) (\<lambda>m1.
                   if 56 \<le> dib_size then read_alpha_mask dib m1 else Inr m1)
            else (if unat (14 + dib_size + 12) \<le> n
                  then bindE (read_rgb_masks dib m) (\<lambda>m1.
                         if compression m1 = BI_ALPHABITFIELDS
                            \<and> unat (14 + dib_size + 16) \<le> n
                         then read_alpha_mask dib m1 else Inr m1)
                  else Inr m))
      else Inr m)"

text \<open>Lines 293-311: the V4 colour space.\<close>

definition read_xyz :: "byte list \<Rightarrow> nat \<Rightarrow> error + CIEXYZ" where
  "read_xyz dib off =
     bindE (le32 dib off) (\<lambda>vx.
     bindE (le32 dib (off + 4)) (\<lambda>vy.
     bindE (le32 dib (off + 8)) (\<lambda>vz.
       Inr \<lparr>xyz_x = vx, xyz_y = vy, xyz_z = vz\<rparr>)))"

definition read_v4 :: "byte list \<Rightarrow> Metadata \<Rightarrow> error + Metadata" where
  "read_v4 dib m =
     bindE (le32 dib 40) (\<lambda>cs.
     bindE (read_xyz dib 44) (\<lambda>er.
     bindE (read_xyz dib 56) (\<lambda>eg.
     bindE (read_xyz dib 68) (\<lambda>eb.
     bindE (le32 dib 80) (\<lambda>gr.
     bindE (le32 dib 84) (\<lambda>gg.
     bindE (le32 dib 88) (\<lambda>gb.
       Inr (m\<lparr>cstype := cs, endpoints := \<lparr>ep_r = er, ep_g = eg, ep_b = eb\<rparr>,
              gamma_red := gr, gamma_green := gg, gamma_blue := gb\<rparr>))))))))"

text \<open>
  Lines 313-335: rendering intent and embedded profile. \<open>p\<close> is the whole buffer and
  \<^verbatim>\<open>dib - p_\<close> is 14. A profile that does not lie inside the buffer is dropped.
\<close>

definition intent_of :: "32 word \<Rightarrow> RenderingIntent" where
  "intent_of v =
     (if v = 1 then LCS_GM_BUSINESS
      else if v = 2 then LCS_GM_GRAPHICS
      else if v = 4 then LCS_GM_IMAGES
      else if v = 8 then LCS_GM_ABS_COLORIMETRIC
      else LCS_GM_IMAGES)"

definition read_v5 :: "byte list \<Rightarrow> byte list \<Rightarrow> Metadata \<Rightarrow> error + Metadata" where
  "read_v5 p dib m =
     bindE (le32 dib 92) (\<lambda>iv.
     bindE (le32 dib 112) (\<lambda>profile_data.
     bindE (le32 dib 116) (\<lambda>profile_size.
       (let start = 14 + unat profile_data;
            end' = start + unat profile_size;
            m1 = (if cstype m = PROFILE_EMBEDDED \<and> 0 < profile_size
                     \<and> start \<le> length p \<and> end' \<le> length p \<and> start \<le> end'
                  then m\<lparr>embedded_profile := take (end' - start) (drop start p)\<rparr>
                  else m)
        in Inr (m1\<lparr>intent := intent_of iv\<rparr>)))))"

text \<open>Lines 214-338: dispatch on the size of the DIB header.\<close>

definition win_dib_type :: "32 word \<Rightarrow> DIBType" where
  "win_dib_type dib_size =
     (if dib_size = 40 then INFO
      else if dib_size = 52 then V2
      else if dib_size = 56 then V3
      else if dib_size = 108 then V4
      else V5)"

definition read_dib :: "byte list \<Rightarrow> byte list \<Rightarrow> 32 word \<Rightarrow> Metadata \<Rightarrow> error + Metadata" where
  "read_dib p dib dib_size m =
     (if dib_size = 12 then read_core dib m
      else if dib_size = 16 \<or> dib_size = 64
      then (if dib_size = 64
            then bindE (read_info_fields dib m) (\<lambda>m1. Inr (m1\<lparr>dib_type := OS2_V2\<rparr>))
            else read_os2_short dib m)
      else if dib_size = 40 \<or> dib_size = 52 \<or> dib_size = 56 \<or> dib_size = 108
              \<or> dib_size = 124
      then bindE (read_info_fields dib m) (\<lambda>m1.
           bindE (read_masks (length p) dib dib_size
                    (m1\<lparr>dib_type := win_dib_type dib_size\<rparr>)) (\<lambda>m2.
           bindE (if 108 \<le> dib_size then read_v4 dib m2 else Inr m2) (\<lambda>m3.
             if 124 \<le> dib_size then read_v5 p dib m3 else Inr m3)))
      else Inl (ParseError ''Unsupported or corrupt DIB header size''))"

text \<open>
  Lines 185-212, then the dispatch: the metadata as it stands at line 339, before the
  checks on planes, bits per pixel and dimensions. \<^verbatim>\<open>dib_size + 14u\<close> is formed in
  \<^verbatim>\<open>uint32_t\<close>.
\<close>

definition parse_header :: "byte list \<Rightarrow> error + Metadata" where
  "parse_header p =
     (if length p < 14 then Inl (ParseError ''Truncated BMP header'')
      else bindE (rd p 0) (\<lambda>c0.
        if c0 \<noteq> 0x42 then Inl (ParseError ''Not a BMP (missing 'BM')'')
        else bindE (rd p 1) (\<lambda>c1.
        if c1 \<noteq> 0x4D then Inl (ParseError ''Not a BMP (missing 'BM')'')
        else bindE (le32 p 2) (\<lambda>fsize.
             bindE (le32 p 6) (\<lambda>reserved.
             bindE (le32 p 10) (\<lambda>off_bits.
               if length p < unat off_bits
               then Inl (ParseError ''Pixel data offset beyond file size'')
               else if length p < 18 then Inl (ParseError ''Missing DIB header size'')
               else bindE (le32 (drop 14 p) 0) (\<lambda>dib_size.
                 if length p < unat (dib_size + 14)
                 then Inl (ParseError ''Truncated DIB header'')
                 else read_dib p (drop 14 p) dib_size
                        (init_meta off_bits dib_size fsize))))))))"

text \<open>Lines 340-347.\<close>

definition check_fields :: "Metadata \<Rightarrow> error + unit" where
  "check_fields m =
     (if planes m = 0 then Inl (ParseError ''Invalid planes'')
      else if bpp m = 0 then Inl (ParseError ''Invalid bits-per-pixel'')
      else if width m = 0 \<or> height m = 0 then Inl (ParseError ''Zero dimensions'')
      else Inr ())"

subsection \<open>Palette reader (lines 349-399)\<close>

definition default_palette_entries :: "Metadata \<Rightarrow> 32 word" where
  "default_palette_entries m =
     (if dib_type m = CORE_OS2_V1
      then (if bpp m \<le> 8 then push_bit (unat (bpp m)) 1 else 0)
      else (if bpp m \<le> 8
            then (if color_used m \<noteq> 0 then color_used m else push_bit (unat (bpp m)) 1)
            else color_used m))"

definition read_entry3 :: "byte list \<Rightarrow> nat \<Rightarrow> error + PaletteEntry" where
  "read_entry3 q off =
     bindE (rd q off) (\<lambda>q0.
     bindE (rd q (off + 1)) (\<lambda>q1.
     bindE (rd q (off + 2)) (\<lambda>q2.
       Inr \<lparr>pe_b = q0, pe_g = q1, pe_r = q2, pe_a = 0\<rparr>)))"

definition read_entry4 :: "byte list \<Rightarrow> nat \<Rightarrow> error + PaletteEntry" where
  "read_entry4 q off =
     bindE (rd q off) (\<lambda>q0.
     bindE (rd q (off + 1)) (\<lambda>q1.
     bindE (rd q (off + 2)) (\<lambda>q2.
     bindE (rd q (off + 3)) (\<lambda>q3.
       Inr \<lparr>pe_b = q0, pe_g = q1, pe_r = q2, pe_a = q3\<rparr>))))"

text \<open>
  \<^verbatim>\<open>14 + m.header_size\<close> is formed in \<^verbatim>\<open>uint32_t\<close>; the quotient
  \<^verbatim>\<open>bytes_available_for_palette / 3u\<close> is stored into a \<^verbatim>\<open>uint32_t\<close>.
\<close>

definition read_palette :: "byte list \<Rightarrow> Metadata \<Rightarrow> error + PaletteEntry list" where
  "read_palette p m =
     (let palette_offset = unat (14 + header_size m);
          palette_entries = default_palette_entries m;
          bytes_available = (if palette_offset < unat (file_offset_pixels m)
                             then unat (file_offset_pixels m) - palette_offset else 0);
          q = drop palette_offset p
      in if 0 < palette_entries \<and> 0 < bytes_available
         then (if dib_type m = CORE_OS2_V1
               then (let cnt = min (u32 (bytes_available div 3))
                                   (unat (default_palette_entries m))
                     in for_loop 1 0 cnt
                          (\<lambda>i pal. bindE (read_entry3 q (3 * i)) (\<lambda>e. Inr (pal @ [e]))) [])
               else (let cnt = min (u32 (bytes_available div 4))
                                   (unat (default_palette_entries m))
                     in for_loop 1 0 cnt
                          (\<lambda>i pal. bindE (read_entry4 q (4 * i)) (\<lambda>e. Inr (pal @ [e]))) []))
         else Inr [])"

subsection \<open>Stride calculator (lines 483-487)\<close>

text \<open>
  The product is formed in 64 bits; the byte count is then cast to \<^verbatim>\<open>uint32_t\<close>
  and the rounding to a multiple of four is done in \<^verbatim>\<open>uint32_t\<close>.
\<close>

definition row_stride_aligned :: "32 word \<Rightarrow> 16 word \<Rightarrow> 32 word" where
  "row_stride_aligned w bits_pp =
     (let bits = (ucast w :: 64 word) * ucast bits_pp;
          bytes = (ucast ((bits + 7) div 8) :: 32 word)
      in (bytes + 3) AND NOT 3)"

subsection \<open>Writing to the output vector\<close>

text \<open>
  Four consecutive stores \<^verbatim>\<open>img.pixels[off + 0 .. off + 3]\<close> through the unchecked
  \<^verbatim>\<open>operator[]\<close>.
\<close>

definition store4 ::
  "byte list \<Rightarrow> nat \<Rightarrow> byte \<Rightarrow> byte \<Rightarrow> byte \<Rightarrow> byte \<Rightarrow> error + byte list" where
  "store4 px off v0 v1 v2 v3 =
     (if off + 3 < length px
      then Inr (px[off := v0, off + 1 := v1, off + 2 := v2, off + 3 := v3])
      else Inl OutOfBounds)"

text \<open>\<^verbatim>\<open>std::memcpy(&dst[d], src + s, len)\<close>.\<close>

definition memcpy_row ::
  "byte list \<Rightarrow> nat \<Rightarrow> byte list \<Rightarrow> nat \<Rightarrow> nat \<Rightarrow> error + byte list" where
  "memcpy_row dst d src s len =
     (if s + len \<le> length src \<and> d + len \<le> length dst
      then Inr (take d dst @ take len (drop s src) @ drop (d + len) dst)
      else Inl OutOfBounds)"

text \<open>
  \<^verbatim>\<open>if (idx >= img.palette.size()) idx = 0; pe = img.palette[idx]\<close>
  (lines 507-510, 575-578, 670-673).
\<close>

definition pal_lookup :: "PaletteEntry list \<Rightarrow> byte \<Rightarrow> error + PaletteEntry" where
  "pal_lookup pal idx =
     (let j = (if length pal \<le> unat idx then 0 else unat idx)
      in if j < length pal then Inr (pal ! j) else Inl OutOfBounds)"

subsection \<open>Bitfield decoder (lines 771-862)\<close>

text \<open>
  Lines 775-777. The guard \<open>shift < 32\<close> is not in the source, where a shift by 32 is
  undefined; \<open>ctz_loop_bit\<close> below shows that it never decides for a nonzero mask.
\<close>

function ctz_loop :: "32 word \<Rightarrow> nat \<Rightarrow> nat" where
  "ctz_loop msk shift =
     (if shift < 32 \<and> drop_bit shift msk AND 1 = 0
      then ctz_loop msk (shift + 1) else shift)"
  by pat_completeness auto
termination
  by (relation "measure (\<lambda>(msk, shift). 32 - shift)") auto

declare ctz_loop.simps [simp del]

text \<open>Lines 779-784.\<close>

function width_loop :: "32 word \<Rightarrow> nat \<Rightarrow> nat" where
  "width_loop m w =
     (if m AND 1 \<noteq> 0 then width_loop (drop_bit 1 m) (w + 1) else w)"
  by pat_completeness auto
termination
proof (relation "measure (\<lambda>(m, w). unat m)")
  show "wf (measure (\<lambda>(m :: 32 word, w :: nat). unat m))" by simp
next
  fix m :: "32 word" and w :: nat
  assume "m AND 1 \<noteq> 0"
  then have "m \<noteq> 0" by auto
  then have "0 < unat m" by (simp add: unat_gt_0)
  then have "unat m div 2 < unat m" by simp
  then show "((drop_bit 1 m, w + 1), (m, w)) \<in> measure (\<lambda>(m, w). unat m)"
    by (simp add: drop_bit_eq_div unat_div)
qed

declare width_loop.simps [simp del]

text \<open>
  Lines 795-798. The source enters the loop only with \<open>0 < w\<close> (line 790 returns for
  a zero width).
\<close>

function replicate_loop :: "32 word \<Rightarrow> 32 word \<Rightarrow> nat \<Rightarrow> 32 word" where
  "replicate_loop c x w =
     (if 0 < w \<and> w < 8
      then replicate_loop c (push_bit w x OR c) (2 * w) else x)"
  by pat_completeness auto
termination
  by (relation "measure (\<lambda>(c, x, w). 8 - w)") auto

declare replicate_loop.simps [simp del]

definition bit_extract_norm :: "32 word \<Rightarrow> 32 word \<Rightarrow> byte" where
  "bit_extract_norm v msk =
     (if msk = 0 then 0
      else (let shift = ctz_loop msk 0;
                w = width_loop (drop_bit shift msk) 0;
                c = drop_bit shift (v AND msk)
            in if 8 \<le> w then ucast (drop_bit (w - 8) c)
               else if w = 0 then 0
               else ucast (replicate_loop c c w AND 0xFF)))"

definition default_masks32 :: Bitmasks where
  "default_masks32 =
     \<lparr>mask_r = 0x00FF0000, mask_g = 0x0000FF00, mask_b = 0x000000FF, mask_a = 0xFF000000\<rparr>"

definition default_masks16 :: Bitmasks where
  "default_masks16 = \<lparr>mask_r = 0x7C00, mask_g = 0x03E0, mask_b = 0x001F, mask_a = 0\<rparr>"

text \<open>Lines 818-824. The first conjunct of the source compares with the largest value.\<close>

definition looks8 :: "Bitmasks \<Rightarrow> bool" where
  "looks8 mk =
     ((mask_r mk OR mask_g mk OR mask_b mk OR mask_a mk) \<le> 0xFFFFFFFF
      \<and> ((mask_r mk = 0x00FF0000 \<and> mask_g mk = 0x0000FF00 \<and> mask_b mk = 0x000000FF)
         \<or> (mask_r mk = 0x000000FF \<and> mask_g mk = 0x0000FF00 \<and> mask_b mk = 0x00FF0000)))"

text \<open>
  Lines 833-846, one pixel. \<open>src\<close> is the offset of the row from \<^verbatim>\<open>pix\<close>; the
  products \<^verbatim>\<open>x * 2u\<close> and \<^verbatim>\<open>x * 4u\<close> are formed in \<^verbatim>\<open>uint32_t\<close>.
\<close>

definition bitfields_pixel ::
  "byte list \<Rightarrow> Bitmasks \<Rightarrow> nat \<Rightarrow> nat \<Rightarrow> nat \<Rightarrow> nat \<Rightarrow> nat \<Rightarrow> byte list
     \<Rightarrow> error + byte list" where
  "bitfields_pixel pix mk bytes_per_pixel W src y x px =
     bindE (if bytes_per_pixel = 2
            then bindE (le16 pix (src + u32 (x * 2))) (\<lambda>v16. Inr (ucast v16))
            else le32 pix (src + u32 (x * 4))) (\<lambda>v.
       store4 px ((y * W + x) * 4)
         (bit_extract_norm v (mask_b mk))
         (bit_extract_norm v (mask_g mk))
         (bit_extract_norm v (mask_r mk))
         (if mask_a mk \<noteq> 0 then bit_extract_norm v (mask_a mk) else 255))"

definition decode_bitfields :: "byte list \<Rightarrow> nat \<Rightarrow> Image \<Rightarrow> nat \<Rightarrow> error + Image" where
  "decode_bitfields pix pix_size img bytes_per_pixel =
     (let m = meta img in
      bindE (abs_width m) (\<lambda>Ww.
        (let W = unat Ww;
             H = unat (abs_height m);
             stride = unat (row_stride_aligned Ww (of_nat (bytes_per_pixel * 8)));
             needed = stride * H
         in if pix_size < needed then Inl (ParseError ''Pixel data truncated'')
            else (let mk = (if has_masks m then masks m else default_masks32)
                  in if looks8 mk
                     then bindE
                       (for_loop 1 0 H
                          (\<lambda>row. for_loop 1 0 W
                             (bitfields_pixel pix mk bytes_per_pixel W (row * stride)
                                (if top_down m then row else H - 1 - row)))
                          (replicate (W * H * 4) 0))
                       (\<lambda>px. Inr (img\<lparr>format := BGRA8, pixels := px\<rparr>))
                     else bindE
                       (for_loop 1 0 H
                          (\<lambda>row px. memcpy_row px
                             ((if top_down m then row else H - 1 - row) * W * bytes_per_pixel)
                             pix (row * stride) (W * bytes_per_pixel))
                          (replicate (W * H * bytes_per_pixel) 0))
                       (\<lambda>px. Inr (img\<lparr>format := RawBitfields, raw_masks := mk,
                                     raw_bits_per_pixel := of_nat (bytes_per_pixel * 8),
                                     pixels := px\<rparr>))))))"

subsection \<open>Packed 24-bpp decoder (lines 751-769)\<close>

definition decode_bgr24 :: "byte list \<Rightarrow> nat \<Rightarrow> Image \<Rightarrow> error + Image" where
  "decode_bgr24 pix pix_size img =
     (let m = meta img in
      bindE (abs_width m) (\<lambda>Ww.
        (let W = unat Ww;
             H = unat (abs_height m);
             stride = unat (row_stride_aligned Ww 24);
             needed = stride * H
         in if pix_size < needed then Inl (ParseError ''Pixel data truncated'')
            else bindE
              (for_loop 1 0 H
                 (\<lambda>row px. memcpy_row px
                    ((if top_down m then row else H - 1 - row) * W * 3)
                    pix (row * stride) (W * 3))
                 (replicate (W * H * 3) 0))
              (\<lambda>px. Inr (img\<lparr>format := BGR8, pixels := px\<rparr>)))))"

subsection \<open>Embedded-stream passthrough (lines 864-870)\<close>

definition expose_embedded_stream :: "byte list \<Rightarrow> nat \<Rightarrow> Image \<Rightarrow> error + Image" where
  "expose_embedded_stream pix pix_size img =
     (if pix_size \<le> length pix
      then Inr (img\<lparr>format := RawBitfields, pixels := take pix_size pix,
                    raw_masks := zero_masks, raw_bits_per_pixel := 0\<rparr>)
      else Inl OutOfBounds)"

subsection \<open>Indexed decoder (lines 489-560)\<close>

definition put_px ::
  "PaletteEntry list \<Rightarrow> nat \<Rightarrow> nat \<Rightarrow> nat \<Rightarrow> byte \<Rightarrow> byte list \<Rightarrow> error + byte list" where
  "put_px pal W x y idx px =
     bindE (pal_lookup pal idx) (\<lambda>pe.
       store4 px ((y * W + x) * 4) (pe_b pe) (pe_g pe) (pe_r pe) (pe_a pe))"

text \<open>Lines 521-558: one source row at offset \<open>src\<close>, written to destination row \<open>y\<close>.\<close>

definition indexed_row ::
  "byte list \<Rightarrow> PaletteEntry list \<Rightarrow> 16 word \<Rightarrow> nat \<Rightarrow> nat \<Rightarrow> nat \<Rightarrow> byte list
     \<Rightarrow> error + byte list" where
  "indexed_row pix pal bits_pp W src y px =
     (if bits_pp = 8
      then for_loop 1 0 W
             (\<lambda>x px. bindE (rd pix (src + x)) (\<lambda>v. put_px pal W x y v px)) px
      else if bits_pp = 4
      then for_loop 2 0 W
             (\<lambda>x px. bindE (rd pix (src + x div 2)) (\<lambda>byte.
                bindE (put_px pal W x y (drop_bit 4 byte AND 0xF) px) (\<lambda>px1.
                  if x + 1 < W then put_px pal W (x + 1) y (byte AND 0xF) px1
                  else Inr px1))) px
      else if bits_pp = 2
      then for_loop 4 0 W
             (\<lambda>x px. bindE (rd pix (src + x div 4)) (\<lambda>byte.
                bindE (put_px pal W x y (drop_bit 6 byte AND 3) px) (\<lambda>px1.
                bindE (if x + 1 < W then put_px pal W (x + 1) y (drop_bit 4 byte AND 3) px1
                       else Inr px1) (\<lambda>px2.
                bindE (if x + 2 < W then put_px pal W (x + 2) y (drop_bit 2 byte AND 3) px2
                       else Inr px2) (\<lambda>px3.
                  if x + 3 < W then put_px pal W (x + 3) y (byte AND 3) px3
                  else Inr px3))))) px
      else if bits_pp = 1
      then for_loop 8 0 W
             (\<lambda>x px. bindE (rd pix (src + x div 8)) (\<lambda>byte.
                for_loop 1 0 8
                  (\<lambda>j px. (let b = 7 - j; xx = x + (7 - b)
                           in if xx < W then put_px pal W xx y (drop_bit b byte AND 1) px
                              else Inr px)) px)) px
      else Inr px)"

definition decode_indexed_uncompressed :: "byte list \<Rightarrow> nat \<Rightarrow> Image \<Rightarrow> error + Image" where
  "decode_indexed_uncompressed pix pix_size img =
     (let m = meta img in
      if palette img = [] then Inl (ParseError ''Missing palette for indexed BMP'')
      else bindE (abs_width m) (\<lambda>Ww.
        (let W = unat Ww;
             H = unat (abs_height m);
             stride = unat (row_stride_aligned Ww (bpp m));
             needed = stride * H
         in if pix_size < needed then Inl (ParseError ''Pixel data truncated'')
            else bindE
              (for_loop 1 0 H
                 (\<lambda>row. indexed_row pix (palette img) (bpp m) W (row * stride)
                    (if top_down m then row else H - 1 - row))
                 (replicate (W * H * 4) 0))
              (\<lambda>px. Inr (img\<lparr>format := BGRA8, pixels := px\<rparr>)))))"

subsection \<open>RLE8 and RLE4 decoders (lines 562-749)\<close>

text \<open>
  The decoder state is \<^verbatim>\<open>(x, y, i)\<close> and the output vector. The field \<open>written\<close>
  is not in the source: it logs the pixel index \<open>y * W + x\<close> of every store that
  \<^verbatim>\<open>put\<close> performs, so that "a position the stream never writes" can be stated. No
  definition reads it.
\<close>

record rle_state =
  cur_x :: nat
  cur_y :: nat
  cur_i :: nat
  out_px :: "byte list"
  written :: "nat list"

datatype 'a loop_exit = Continue 'a | Break 'a

lemma bindE_cong [fundef_cong]:
  "m = m' \<Longrightarrow> (\<And>v. m' = Inr v \<Longrightarrow> f v = f' v) \<Longrightarrow> bindE m f = bindE m' f'"
  by (auto simp: bindE_def split: sum.splits)

text \<open>The lambda \<^verbatim>\<open>put\<close> (lines 571-584 and, with the same text, 666-679).\<close>

definition rle_put ::
  "PaletteEntry list \<Rightarrow> nat \<Rightarrow> nat \<Rightarrow> nat \<Rightarrow> nat \<Rightarrow> byte \<Rightarrow> rle_state
     \<Rightarrow> error + rle_state" where
  "rle_put pal W H x y idx st =
     (if W \<le> x \<or> H \<le> y then Inr st
      else bindE (pal_lookup pal idx) (\<lambda>pe.
           bindE (store4 (out_px st) ((y * W + x) * 4)
                    (pe_b pe) (pe_g pe) (pe_r pe) (pe_a pe)) (\<lambda>px.
             Inr (st\<lparr>out_px := px, written := (y * W + x) # written st\<rparr>))))"

text \<open>
  \<^verbatim>\<open>uint32_t yy = m.top_down() ? y : (H - 1 - y)\<close>, in \<^verbatim>\<open>uint32_t\<close>.
\<close>

definition dest_row :: "bool \<Rightarrow> nat \<Rightarrow> nat \<Rightarrow> nat" where
  "dest_row td H y = (if td then y else u32 (H + 2 ^ 32 - 1 - y))"

text \<open>\<^verbatim>\<open>adv_y\<close> (lines 587-590); RLE4 writes \<^verbatim>\<open>y++; x = 0\<close> in its place.\<close>

definition adv_y :: "rle_state \<Rightarrow> rle_state" where
  "adv_y st = st\<lparr>cur_y := u32 (cur_y st + 1), cur_x := 0\<rparr>"

text \<open>Lines 603-611: an encoded run of \<open>count\<close> pixels of index \<open>val\<close>.\<close>

function rle8_run ::
  "PaletteEntry list \<Rightarrow> nat \<Rightarrow> nat \<Rightarrow> bool \<Rightarrow> byte \<Rightarrow> nat \<Rightarrow> nat \<Rightarrow> rle_state
     \<Rightarrow> error + rle_state" where
  "rle8_run pal W H td val count k st =
     (if k < count
      then (case rle_put pal W H (cur_x st) (dest_row td H (cur_y st)) val st of
              Inl e \<Rightarrow> Inl e
            | Inr st1 \<Rightarrow>
                (if W \<le> u32 (cur_x st + 1)
                 then (if H \<le> cur_y (adv_y st1) then Inr (adv_y st1)
                       else rle8_run pal W H td val count (k + 1) (adv_y st1))
                 else rle8_run pal W H td val count (k + 1)
                        (st1\<lparr>cur_x := u32 (cur_x st + 1)\<rparr>)))
      else Inr st)"
  by pat_completeness auto
termination
  by (relation "measure (\<lambda>(pal, W, H, td, val, count, k, st). count - k)") auto

declare rle8_run.simps [simp del]

text \<open>Lines 638-646: an absolute run of \<open>n\<close> literal indices read from the stream.\<close>

function rle8_abs ::
  "byte list \<Rightarrow> PaletteEntry list \<Rightarrow> nat \<Rightarrow> nat \<Rightarrow> bool \<Rightarrow> nat \<Rightarrow> nat \<Rightarrow> rle_state
     \<Rightarrow> error + rle_state" where
  "rle8_abs pix pal W H td n k st =
     (if k < n
      then (case rd pix (cur_i st) of
              Inl e \<Rightarrow> Inl e
            | Inr v \<Rightarrow>
               (case rle_put pal W H (cur_x st) (dest_row td H (cur_y st)) v
                       (st\<lparr>cur_i := cur_i st + 1\<rparr>) of
                  Inl e \<Rightarrow> Inl e
                | Inr st1 \<Rightarrow>
                    (if W \<le> u32 (cur_x st + 1)
                     then (if H \<le> cur_y (adv_y st1) then Inr (adv_y st1)
                           else rle8_abs pix pal W H td n (k + 1) (adv_y st1))
                     else rle8_abs pix pal W H td n (k + 1)
                            (st1\<lparr>cur_x := u32 (cur_x st + 1)\<rparr>))))
      else Inr st)"
  by pat_completeness auto
termination
  by (relation "measure (\<lambda>(pix, pal, W, H, td, n, k, st). n - k)") auto

declare rle8_abs.simps [simp del]

text \<open>Lines 625-632: the delta escape of RLE8, after the two bytes are read.\<close>

definition rle8_delta :: "nat \<Rightarrow> nat \<Rightarrow> byte \<Rightarrow> byte \<Rightarrow> rle_state \<Rightarrow> rle_state" where
  "rle8_delta W H dx dy st =
     (let x1 = u32 (cur_x st + unat dx);
          y1 = u32 (cur_y st + unat dy)
      in st\<lparr>cur_i := cur_i st + 2,
            cur_x := (if W \<le> x1 then W else x1),
            cur_y := (if H \<le> y1 then H else y1)\<rparr>)"

text \<open>Lines 594-651: one pass through the body of the \<^verbatim>\<open>while\<close> loop of RLE8.\<close>

definition rle8_step ::
  "byte list \<Rightarrow> nat \<Rightarrow> PaletteEntry list \<Rightarrow> nat \<Rightarrow> nat \<Rightarrow> bool \<Rightarrow> rle_state
     \<Rightarrow> error + rle_state loop_exit" where
  "rle8_step pix pix_size pal W H td st =
     (if pix_size < cur_i st + 1 then Inr (Break st)
      else bindE (rd pix (cur_i st)) (\<lambda>count.
        (let st0 = st\<lparr>cur_i := cur_i st + 1\<rparr>
         in if count \<noteq> 0
            then (if pix_size \<le> cur_i st0 then Inr (Break st0)
                  else bindE (rd pix (cur_i st0)) (\<lambda>val.
                       bindE (rle8_run pal W H td val (unat count) 0
                                (st0\<lparr>cur_i := cur_i st0 + 1\<rparr>)) (\<lambda>st1.
                         Inr (Continue st1))))
            else (if pix_size \<le> cur_i st0 then Inr (Break st0)
                  else bindE (rd pix (cur_i st0)) (\<lambda>cmd.
                    (let st1 = st0\<lparr>cur_i := cur_i st0 + 1\<rparr>
                     in if cmd = 0 then Inr (Continue (adv_y st1))
                        else if cmd = 1 then Inr (Break st1)
                        else if cmd = 2
                        then (if pix_size \<le> cur_i st1 + 1 then Inr (Break st1)
                              else bindE (rd pix (cur_i st1)) (\<lambda>dx.
                                   bindE (rd pix (cur_i st1 + 1)) (\<lambda>dy.
                                     Inr (Continue (rle8_delta W H dx dy st1)))))
                        else (if pix_size < cur_i st1 + unat cmd then Inr (Break st1)
                              else bindE (rle8_abs pix pal W H td (unat cmd) 0 st1) (\<lambda>st2.
                                     Inr (Continue
                                       (if odd (unat cmd) \<and> cur_i st2 < pix_size
                                        then st2\<lparr>cur_i := cur_i st2 + 1\<rparr>
                                        else st2))))))))))"

text \<open>Lines 691-701: an encoded run of RLE4, alternating the high and the low nibble.\<close>

function rle4_run ::
  "PaletteEntry list \<Rightarrow> nat \<Rightarrow> nat \<Rightarrow> bool \<Rightarrow> byte \<Rightarrow> byte \<Rightarrow> nat \<Rightarrow> nat \<Rightarrow> rle_state
     \<Rightarrow> error + rle_state" where
  "rle4_run pal W H td hi lo count k st =
     (if k < count
      then (case rle_put pal W H (cur_x st) (dest_row td H (cur_y st))
                   (if odd k then lo else hi) st of
              Inl e \<Rightarrow> Inl e
            | Inr st1 \<Rightarrow>
                (if W \<le> u32 (cur_x st + 1)
                 then (if H \<le> cur_y (adv_y st1) then Inr (adv_y st1)
                       else rle4_run pal W H td hi lo count (k + 1) (adv_y st1))
                 else rle4_run pal W H td hi lo count (k + 1)
                        (st1\<lparr>cur_x := u32 (cur_x st + 1)\<rparr>)))
      else Inr st)"
  by pat_completeness auto
termination
  by (relation "measure (\<lambda>(pal, W, H, td, hi, lo, count, k, st). count - k)") auto

declare rle4_run.simps [simp del]

text \<open>
  Lines 730-741: an absolute run of RLE4; pixel \<open>k\<close> is a nibble of the byte at
  \<^verbatim>\<open>i + k/2\<close>, and \<^verbatim>\<open>i\<close> stays where it is.
\<close>

function rle4_abs ::
  "byte list \<Rightarrow> PaletteEntry list \<Rightarrow> nat \<Rightarrow> nat \<Rightarrow> bool \<Rightarrow> nat \<Rightarrow> nat \<Rightarrow> rle_state
     \<Rightarrow> error + rle_state" where
  "rle4_abs pix pal W H td n k st =
     (if k < n
      then (case rd pix (cur_i st + k div 2) of
              Inl e \<Rightarrow> Inl e
            | Inr v \<Rightarrow>
               (case rle_put pal W H (cur_x st) (dest_row td H (cur_y st))
                       (if odd k then v AND 0xF else drop_bit 4 v AND 0xF) st of
                  Inl e \<Rightarrow> Inl e
                | Inr st1 \<Rightarrow>
                    (if W \<le> u32 (cur_x st + 1)
                     then (if H \<le> cur_y (adv_y st1) then Inr (adv_y st1)
                           else rle4_abs pix pal W H td n (k + 1) (adv_y st1))
                     else rle4_abs pix pal W H td n (k + 1)
                            (st1\<lparr>cur_x := u32 (cur_x st + 1)\<rparr>))))
      else Inr st)"
  by pat_completeness auto
termination
  by (relation "measure (\<lambda>(pix, pal, W, H, td, n, k, st). n - k)") auto

declare rle4_abs.simps [simp del]

text \<open>Lines 720-721: the delta escape of RLE4, after the two bytes are read.\<close>

definition rle4_delta :: "byte \<Rightarrow> byte \<Rightarrow> rle_state \<Rightarrow> rle_state" where
  "rle4_delta dx dy st =
     st\<lparr>cur_i := cur_i st + 2,
        cur_x := u32 (cur_x st + unat dx),
        cur_y := u32 (cur_y st + unat dy)\<rparr>"

text \<open>Lines 684-747: one pass through the body of the \<^verbatim>\<open>while\<close> loop of RLE4.\<close>

definition rle4_step ::
  "byte list \<Rightarrow> nat \<Rightarrow> PaletteEntry list \<Rightarrow> nat \<Rightarrow> nat \<Rightarrow> bool \<Rightarrow> rle_state
     \<Rightarrow> error + rle_state loop_exit" where
  "rle4_step pix pix_size pal W H td st =
     bindE (rd pix (cur_i st)) (\<lambda>count.
       (let st0 = st\<lparr>cur_i := cur_i st + 1\<rparr>
        in if count \<noteq> 0
           then (if pix_size \<le> cur_i st0 then Inr (Break st0)
                 else bindE (rd pix (cur_i st0)) (\<lambda>byte.
                      bindE (rle4_run pal W H td (drop_bit 4 byte AND 0xF) (byte AND 0xF)
                               (unat count) 0 (st0\<lparr>cur_i := cur_i st0 + 1\<rparr>)) (\<lambda>st1.
                        Inr (Continue st1))))
           else (if pix_size \<le> cur_i st0 then Inr (Break st0)
                 else bindE (rd pix (cur_i st0)) (\<lambda>cmd.
                   (let st1 = st0\<lparr>cur_i := cur_i st0 + 1\<rparr>
                    in if cmd = 0 then Inr (Continue (adv_y st1))
                       else if cmd = 1 then Inr (Break st1)
                       else if cmd = 2
                       then (if pix_size \<le> cur_i st1 + 1 then Inr (Break st1)
                             else bindE (rd pix (cur_i st1)) (\<lambda>dx.
                                  bindE (rd pix (cur_i st1 + 1)) (\<lambda>dy.
                                    Inr (Continue (rle4_delta dx dy st1)))))
                       else (let bytes = (unat cmd + 1) div 2
                             in if pix_size < cur_i st1 + bytes then Inr (Break st1)
                                else bindE (rle4_abs pix pal W H td (unat cmd) 0 st1) (\<lambda>st2.
                                       (let st3 = st2\<lparr>cur_i := cur_i st2 + bytes\<rparr>
                                        in Inr (Continue
                                             (if odd bytes \<and> cur_i st3 < pix_size
                                              then st3\<lparr>cur_i := cur_i st3 + 1\<rparr>
                                              else st3))))))))))"

text \<open>
  Invariant rules for the four run loops: a property of the state that \<open>rle_put\<close>,
  \<open>adv_y\<close> and the stores to \<open>x\<close> (and \<open>i\<close>) keep holds when the loop ends.
\<close>

lemma rle8_run_inv:
  assumes "\<And>s x y idx s'. P s \<Longrightarrow> rle_put pal W H x y idx s = Inr s' \<Longrightarrow> P s'"
    and "\<And>s. P s \<Longrightarrow> P (adv_y s)"
    and "\<And>s v. P s \<Longrightarrow> P (s\<lparr>cur_x := v\<rparr>)"
    and "P st" and "rle8_run pal W H td val count k st = Inr st'"
  shows "P st'"
  using assms
proof (induction pal W H td val count k st rule: rle8_run.induct)
  case (1 pal W H td val count k st)
  note put = "1.prems"(1) and adv = "1.prems"(2) and setx = "1.prems"(3)
    and P0 = "1.prems"(4) and run = "1.prems"(5)
  note unf = rle8_run.simps [of pal W H td val count k st]
  show ?case
  proof (cases "k < count")
    case False
    with P0 run show ?thesis by (simp add: unf)
  next
    case True
    from True run obtain st1 where
      p: "rle_put pal W H (cur_x st) (dest_row td H (cur_y st)) val st = Inr st1"
      by (auto simp: unf split: sum.splits)
    have P1: "P st1" using put [OF P0 p] .
    show ?thesis
    proof (cases "W \<le> u32 (cur_x st + 1)")
      case w: True
      show ?thesis
      proof (cases "H \<le> cur_y (adv_y st1)")
        case True
        with run \<open>k < count\<close> p w  have "st' = adv_y st1"
          by (simp add: unf)
        with adv [OF P1] show ?thesis by simp
      next
        case False
        with run \<open>k < count\<close> p w 
        have "rle8_run pal W H td val count (k + 1) (adv_y st1) = Inr st'"
          by (simp add: unf)
        from "1.IH"(1) [OF \<open>k < count\<close>  p w False put adv setx  adv [OF P1] this]
        show ?thesis .
      qed
    next
      case w: False
      with run \<open>k < count\<close> p 
      have "rle8_run pal W H td val count (k + 1) (st1\<lparr>cur_x := u32 (cur_x st + 1)\<rparr>) = Inr st'"
        by (simp add: unf)
      from "1.IH"(2) [OF \<open>k < count\<close>  p w put adv setx  setx [OF P1] this]
      show ?thesis .
    qed
  qed
qed

lemma rle8_abs_inv:
  assumes "\<And>s x y idx s'. P s \<Longrightarrow> rle_put pal W H x y idx s = Inr s' \<Longrightarrow> P s'"
    and "\<And>s. P s \<Longrightarrow> P (adv_y s)"
    and "\<And>s v. P s \<Longrightarrow> P (s\<lparr>cur_x := v\<rparr>)"
    and "\<And>s. P s \<Longrightarrow> P (s\<lparr>cur_i := cur_i s + 1\<rparr>)"
    and "P st" and "rle8_abs pix pal W H td n k st = Inr st'"
  shows "P st'"
  using assms
proof (induction pix pal W H td n k st rule: rle8_abs.induct)
  case (1 pix pal W H td n k st)
  note put = "1.prems"(1) and adv = "1.prems"(2) and setx = "1.prems"(3) and seti = "1.prems"(4)
    and P0 = "1.prems"(5) and run = "1.prems"(6)
  note unf = rle8_abs.simps [of pix pal W H td n k st]
  show ?case
  proof (cases "k < n")
    case False
    with P0 run show ?thesis by (simp add: unf)
  next
    case True
    from True run obtain v where
      r: "rd pix (cur_i st) = Inr v"
      by (auto simp: unf split: sum.splits)
    from True run r obtain st1 where
      p: "rle_put pal W H (cur_x st) (dest_row td H (cur_y st)) v (st\<lparr>cur_i := cur_i st + 1\<rparr>) = Inr st1"
      by (auto simp: unf split: sum.splits)
    have P1: "P st1" using put [OF seti [OF P0] p] .
    show ?thesis
    proof (cases "W \<le> u32 (cur_x st + 1)")
      case w: True
      show ?thesis
      proof (cases "H \<le> cur_y (adv_y st1)")
        case True
        with run \<open>k < n\<close> p w r have "st' = adv_y st1"
          by (simp add: unf)
        with adv [OF P1] show ?thesis by simp
      next
        case False
        with run \<open>k < n\<close> p w r
        have "rle8_abs pix pal W H td n (k + 1) (adv_y st1) = Inr st'"
          by (simp add: unf)
        from "1.IH"(1) [OF \<open>k < n\<close> r p w False put adv setx seti adv [OF P1] this]
        show ?thesis .
      qed
    next
      case w: False
      with run \<open>k < n\<close> p r
      have "rle8_abs pix pal W H td n (k + 1) (st1\<lparr>cur_x := u32 (cur_x st + 1)\<rparr>) = Inr st'"
        by (simp add: unf)
      from "1.IH"(2) [OF \<open>k < n\<close> r p w put adv setx seti setx [OF P1] this]
      show ?thesis .
    qed
  qed
qed

lemma rle4_run_inv:
  assumes "\<And>s x y idx s'. P s \<Longrightarrow> rle_put pal W H x y idx s = Inr s' \<Longrightarrow> P s'"
    and "\<And>s. P s \<Longrightarrow> P (adv_y s)"
    and "\<And>s v. P s \<Longrightarrow> P (s\<lparr>cur_x := v\<rparr>)"
    and "P st" and "rle4_run pal W H td hi lo count k st = Inr st'"
  shows "P st'"
  using assms
proof (induction pal W H td hi lo count k st rule: rle4_run.induct)
  case (1 pal W H td hi lo count k st)
  note put = "1.prems"(1) and adv = "1.prems"(2) and setx = "1.prems"(3)
    and P0 = "1.prems"(4) and run = "1.prems"(5)
  note unf = rle4_run.simps [of pal W H td hi lo count k st]
  show ?case
  proof (cases "k < count")
    case False
    with P0 run show ?thesis by (simp add: unf)
  next
    case True
    from True run obtain st1 where
      p: "rle_put pal W H (cur_x st) (dest_row td H (cur_y st)) (if odd k then lo else hi) st = Inr st1"
      by (auto simp: unf split: sum.splits)
    have P1: "P st1" using put [OF P0 p] .
    show ?thesis
    proof (cases "W \<le> u32 (cur_x st + 1)")
      case w: True
      show ?thesis
      proof (cases "H \<le> cur_y (adv_y st1)")
        case True
        with run \<open>k < count\<close> p w  have "st' = adv_y st1"
          by (simp add: unf)
        with adv [OF P1] show ?thesis by simp
      next
        case False
        with run \<open>k < count\<close> p w 
        have "rle4_run pal W H td hi lo count (k + 1) (adv_y st1) = Inr st'"
          by (simp add: unf)
        from "1.IH"(1) [OF \<open>k < count\<close>  p w False put adv setx  adv [OF P1] this]
        show ?thesis .
      qed
    next
      case w: False
      with run \<open>k < count\<close> p 
      have "rle4_run pal W H td hi lo count (k + 1) (st1\<lparr>cur_x := u32 (cur_x st + 1)\<rparr>) = Inr st'"
        by (simp add: unf)
      from "1.IH"(2) [OF \<open>k < count\<close>  p w put adv setx  setx [OF P1] this]
      show ?thesis .
    qed
  qed
qed

lemma rle4_abs_inv:
  assumes "\<And>s x y idx s'. P s \<Longrightarrow> rle_put pal W H x y idx s = Inr s' \<Longrightarrow> P s'"
    and "\<And>s. P s \<Longrightarrow> P (adv_y s)"
    and "\<And>s v. P s \<Longrightarrow> P (s\<lparr>cur_x := v\<rparr>)"
    and "P st" and "rle4_abs pix pal W H td n k st = Inr st'"
  shows "P st'"
  using assms
proof (induction pix pal W H td n k st rule: rle4_abs.induct)
  case (1 pix pal W H td n k st)
  note put = "1.prems"(1) and adv = "1.prems"(2) and setx = "1.prems"(3)
    and P0 = "1.prems"(4) and run = "1.prems"(5)
  note unf = rle4_abs.simps [of pix pal W H td n k st]
  show ?case
  proof (cases "k < n")
    case False
    with P0 run show ?thesis by (simp add: unf)
  next
    case True
    from True run obtain v where
      r: "rd pix (cur_i st + k div 2) = Inr v"
      by (auto simp: unf split: sum.splits)
    from True run r obtain st1 where
      p: "rle_put pal W H (cur_x st) (dest_row td H (cur_y st)) (if odd k then v AND 0xF else drop_bit 4 v AND 0xF) st = Inr st1"
      by (auto simp: unf split: sum.splits)
    have P1: "P st1" using put [OF P0 p] .
    show ?thesis
    proof (cases "W \<le> u32 (cur_x st + 1)")
      case w: True
      show ?thesis
      proof (cases "H \<le> cur_y (adv_y st1)")
        case True
        with run \<open>k < n\<close> p w r have "st' = adv_y st1"
          by (simp add: unf)
        with adv [OF P1] show ?thesis by simp
      next
        case False
        with run \<open>k < n\<close> p w r
        have "rle4_abs pix pal W H td n (k + 1) (adv_y st1) = Inr st'"
          by (simp add: unf)
        from "1.IH"(1) [OF \<open>k < n\<close> r p w False put adv setx  adv [OF P1] this]
        show ?thesis .
      qed
    next
      case w: False
      with run \<open>k < n\<close> p r
      have "rle4_abs pix pal W H td n (k + 1) (st1\<lparr>cur_x := u32 (cur_x st + 1)\<rparr>) = Inr st'"
        by (simp add: unf)
      from "1.IH"(2) [OF \<open>k < n\<close> r p w put adv setx  setx [OF P1] this]
      show ?thesis .
    qed
  qed
qed

lemma rle_put_frame:
  "rle_put pal W H x y idx st = Inr st' \<Longrightarrow>
     cur_i st' = cur_i st \<and> cur_x st' = cur_x st \<and> cur_y st' = cur_y st"
  by (auto simp: rle_put_def bindE_def split: if_splits sum.splits)

lemma rle8_run_i:
  assumes "rle8_run pal W H td val count k st = Inr st'"
  shows "cur_i st' = cur_i st"
  by (rule rle8_run_inv [where P = "\<lambda>s. cur_i s = cur_i st", OF _ _ _ _ assms])
     (auto simp: adv_y_def dest: rle_put_frame)

lemma rle8_abs_i:
  assumes "rle8_abs pix pal W H td n k st = Inr st'"
  shows "cur_i st \<le> cur_i st'"
  by (rule rle8_abs_inv [where P = "\<lambda>s. cur_i st \<le> cur_i s", OF _ _ _ _ _ assms])
     (auto simp: adv_y_def dest: rle_put_frame)

lemma rle4_run_i:
  assumes "rle4_run pal W H td hi lo count k st = Inr st'"
  shows "cur_i st' = cur_i st"
  by (rule rle4_run_inv [where P = "\<lambda>s. cur_i s = cur_i st", OF _ _ _ _ assms])
     (auto simp: adv_y_def dest: rle_put_frame)

lemma rle4_abs_i:
  assumes "rle4_abs pix pal W H td n k st = Inr st'"
  shows "cur_i st' = cur_i st"
  by (rule rle4_abs_inv [where P = "\<lambda>s. cur_i s = cur_i st", OF _ _ _ _ assms])
     (auto simp: adv_y_def dest: rle_put_frame)

lemma rle8_step_progress:
  "rle8_step pix pix_size pal W H td st = Inr (Continue st') \<Longrightarrow> cur_i st < cur_i st'"
  by (auto simp: rle8_step_def bindE_def Let_def adv_y_def rle8_delta_def
           split: if_splits sum.splits dest!: rle8_run_i rle8_abs_i)

lemma rle4_step_progress:
  "rle4_step pix pix_size pal W H td st = Inr (Continue st') \<Longrightarrow> cur_i st < cur_i st'"
  by (auto simp: rle4_step_def bindE_def Let_def adv_y_def rle4_delta_def
           split: if_splits sum.splits dest!: rle4_run_i rle4_abs_i)

text \<open>Lines 593-652: the \<^verbatim>\<open>while\<close> loop of RLE8. Every pass consumes input.\<close>

function rle8_loop ::
  "byte list \<Rightarrow> nat \<Rightarrow> PaletteEntry list \<Rightarrow> nat \<Rightarrow> nat \<Rightarrow> bool \<Rightarrow> rle_state
     \<Rightarrow> error + rle_state" where
  "rle8_loop pix pix_size pal W H td st =
     (if cur_i st < pix_size \<and> cur_y st < H
      then (case rle8_step pix pix_size pal W H td st of
              Inl e \<Rightarrow> Inl e
            | Inr (Break st1) \<Rightarrow> Inr st1
            | Inr (Continue st1) \<Rightarrow> rle8_loop pix pix_size pal W H td st1)
      else Inr st)"
  by pat_completeness auto
termination
  by (relation "measure (\<lambda>(pix, pix_size, pal, W, H, td, st). pix_size - cur_i st)")
     (auto dest: rle8_step_progress)

declare rle8_loop.simps [simp del]

text \<open>Lines 683-748: the \<^verbatim>\<open>while\<close> loop of RLE4.\<close>

function rle4_loop ::
  "byte list \<Rightarrow> nat \<Rightarrow> PaletteEntry list \<Rightarrow> nat \<Rightarrow> nat \<Rightarrow> bool \<Rightarrow> rle_state
     \<Rightarrow> error + rle_state" where
  "rle4_loop pix pix_size pal W H td st =
     (if cur_i st < pix_size \<and> cur_y st < H
      then (case rle4_step pix pix_size pal W H td st of
              Inl e \<Rightarrow> Inl e
            | Inr (Break st1) \<Rightarrow> Inr st1
            | Inr (Continue st1) \<Rightarrow> rle4_loop pix pix_size pal W H td st1)
      else Inr st)"
  by pat_completeness auto
termination
  by (relation "measure (\<lambda>(pix, pix_size, pal, W, H, td, st). pix_size - cur_i st)")
     (auto dest: rle4_step_progress)

declare rle4_loop.simps [simp del]

text \<open>
  Lines 567-592 and 660-682: the state in which the loop starts, with the output vector
  of \<open>W * H * 4\<close> zero bytes (\<^verbatim>\<open>img.pixels.assign(size_t(W) * H * 4u, 0)\<close>).
\<close>

definition rle_init :: "nat \<Rightarrow> nat \<Rightarrow> rle_state" where
  "rle_init W H =
     \<lparr>cur_x = 0, cur_y = 0, cur_i = 0, out_px = replicate (W * H * 4) 0, written = []\<rparr>"

text \<open>The state in which the loop of \<^verbatim>\<open>decode_rle8\<close> ends.\<close>

definition rle8_final :: "byte list \<Rightarrow> nat \<Rightarrow> Image \<Rightarrow> error + rle_state" where
  "rle8_final pix pix_size img =
     (if palette img = [] then Inl (ParseError ''Missing palette for RLE8'')
      else bindE (abs_width (meta img)) (\<lambda>Ww.
             rle8_loop pix pix_size (palette img) (unat Ww) (unat (abs_height (meta img)))
               (top_down (meta img)) (rle_init (unat Ww) (unat (abs_height (meta img))))))"

definition decode_rle8 :: "byte list \<Rightarrow> nat \<Rightarrow> Image \<Rightarrow> error + Image" where
  "decode_rle8 pix pix_size img =
     bindE (rle8_final pix pix_size img) (\<lambda>st.
       Inr (img\<lparr>format := BGRA8, pixels := out_px st\<rparr>))"

definition rle4_final :: "byte list \<Rightarrow> nat \<Rightarrow> Image \<Rightarrow> error + rle_state" where
  "rle4_final pix pix_size img =
     (if palette img = [] then Inl (ParseError ''Missing palette for RLE4'')
      else bindE (abs_width (meta img)) (\<lambda>Ww.
             rle4_loop pix pix_size (palette img) (unat Ww) (unat (abs_height (meta img)))
               (top_down (meta img)) (rle_init (unat Ww) (unat (abs_height (meta img))))))"

definition decode_rle4 :: "byte list \<Rightarrow> nat \<Rightarrow> Image \<Rightarrow> error + Image" where
  "decode_rle4 pix pix_size img =
     bindE (rle4_final pix pix_size img) (\<lambda>st.
       Inr (img\<lparr>format := BGRA8, pixels := out_px st\<rparr>))"

subsection \<open>Pixel region and dispatch (lines 401-476)\<close>

text \<open>Lines 405-407, for a buffer of \<open>n\<close> bytes.\<close>

definition pix_size_of :: "nat \<Rightarrow> Metadata \<Rightarrow> nat" where
  "pix_size_of n m =
     (let pix_size = n - unat (file_offset_pixels m)
      in if image_size m \<noteq> 0 \<and> unat (image_size m) \<le> pix_size
         then unat (image_size m) else pix_size)"

definition is_stream :: "32 word \<Rightarrow> bool" where
  "is_stream c = (c = BI_PNG \<or> c = BI_JPEG)"

definition is_bitfields :: "32 word \<Rightarrow> bool" where
  "is_bitfields c = (c = BI_BITFIELDS \<or> c = BI_ALPHABITFIELDS)"

text \<open>Lines 413-474: the \<^verbatim>\<open>switch\<close> on the bits per pixel.\<close>

definition decode_pixels :: "byte list \<Rightarrow> nat \<Rightarrow> Image \<Rightarrow> error + Image" where
  "decode_pixels pix pix_size img =
     (let m = meta img; c = compression m
      in if bpp m = 1 \<or> bpp m = 2 \<or> bpp m = 4 \<or> bpp m = 8
         then (if c = BI_RGB then decode_indexed_uncompressed pix pix_size img
               else if c = BI_RLE8 \<and> bpp m = 8 then decode_rle8 pix pix_size img
               else if c = BI_RLE4 \<and> bpp m = 4 then decode_rle4 pix pix_size img
               else if is_stream c then expose_embedded_stream pix pix_size img
               else Inl (ParseError ''Unsupported compression for indexed BMP''))
         else if bpp m = 16
         then (if c = BI_RGB
               then decode_bitfields pix pix_size
                      (img\<lparr>meta := m\<lparr>has_masks := True, masks := default_masks16\<rparr>\<rparr>) 2
               else if is_bitfields c then decode_bitfields pix pix_size img 2
               else if is_stream c then expose_embedded_stream pix pix_size img
               else Inl (ParseError ''Unsupported compression for 16bpp''))
         else if bpp m = 24
         then (if c = BI_RGB then decode_bgr24 pix pix_size img
               else if is_stream c then expose_embedded_stream pix pix_size img
               else Inl (ParseError ''Unsupported compression for 24bpp''))
         else if bpp m = 32
         then (if c = BI_RGB
               then decode_bitfields pix pix_size
                      (img\<lparr>meta := m\<lparr>has_masks := True, masks := default_masks32\<rparr>\<rparr>) 4
               else if is_bitfields c then decode_bitfields pix pix_size img 4
               else if is_stream c then expose_embedded_stream pix pix_size img
               else Inl (ParseError ''Unsupported compression for 32bpp''))
         else Inl (ParseError ''Unsupported bits-per-pixel''))"

text \<open>
  \<^verbatim>\<open>Reader::parse\<close>, which \<^verbatim>\<open>load_from_memory\<close> calls: the decoder of a buffer.
\<close>

definition parse :: "byte list \<Rightarrow> error + Image" where
  "parse p =
     bindE (parse_header p) (\<lambda>m.
     bindE (check_fields m) (\<lambda>_.
     bindE (read_palette p m) (\<lambda>pal.
       if length p < unat (file_offset_pixels m)
       then Inl (ParseError ''Pixel array offset beyond data'')
       else decode_pixels (drop (unat (file_offset_pixels m)) p)
              (pix_size_of (length p) m) (init_image m pal))))"

subsection \<open>Sizes stay below the range of \<^verbatim>\<open>size_t\<close>\<close>

lemma neg_sint_iff: "sint (w :: 32 word) < 0 \<longleftrightarrow> 2 ^ 31 \<le> unat w"
proof -
  have "sint w < 0 \<longleftrightarrow> bit w 31" using bit_last_iff [of w] by simp
  also have "\<dots> \<longleftrightarrow> bit (unat w) 31" by (simp add: bit_unsigned_iff)
  also have "\<dots> \<longleftrightarrow> odd (unat w div 2 ^ 31)"
    by (simp add: bit_iff_odd_drop_bit drop_bit_eq_div)
  also have "\<dots> \<longleftrightarrow> 2 ^ 31 \<le> unat w"
  proof -
    define q where "q = unat w div 2 ^ 31"
    have "unat w < 2 * 2 ^ 31" using unsigned_less [of w] by simp
    then have "q < 2" unfolding q_def by (rule less_mult_imp_div_less)
    then have "q = 0 \<or> q = 1" by arith
    then have "odd q \<longleftrightarrow> 0 < q" by auto
    moreover have "0 < q \<longleftrightarrow> 2 ^ 31 \<le> unat w"
      unfolding q_def by (simp add: div_greater_zero_iff)
    ultimately show ?thesis unfolding q_def by simp
  qed
  finally show ?thesis .
qed

lemma unat_neg32: "w \<noteq> 0 \<Longrightarrow> unat (- w :: 32 word) = 2 ^ 32 - unat w"
proof -
  assume w: "w \<noteq> 0"
  let ?s = "unat w + unat (- w)"
  let ?q = "?s div 2 ^ 32"
  have "?s mod 2 ^ 32 = unat (w + - w)"
    by (simp only: unat_word_ariths(1)) simp
  then have z: "?s mod 2 ^ 32 = 0" by simp
  then have d: "2 ^ 32 dvd ?s" by (simp only: dvd_eq_mod_eq_0)
  have s: "?s = ?q * 2 ^ 32" by (rule dvd_div_mult_self [OF d, symmetric])
  have a: "unat w < 2 ^ 32" using unsigned_less [of w] by simp
  have b: "unat (- w) < 2 ^ 32" using unsigned_less [of "- w"] by simp
  have c: "0 < unat w" using w by (simp add: unat_gt_0)
  from a b have "?s < 2 * 2 ^ 32" by simp
  then have "?q < 2" by (rule less_mult_imp_div_less)
  moreover have "?q \<noteq> 0"
  proof
    assume "?q = 0"
    with s have "?s = 0" by simp
    with c show False by simp
  qed
  ultimately have "?q = 1" by simp
  with s have "?s = 2 ^ 32" by simp
  then show ?thesis by simp
qed

lemma abs_width_bound:
  assumes "abs_width m = Inr Ww"
  shows "unat Ww < 2 ^ 31"
proof (cases "sint (width m) < 0")
  case False
  with assms have "Ww = width m" by (simp add: abs_width_def)
  with False show ?thesis by (simp add: neg_sint_iff)
next
  case True
  with assms have w: "Ww = - width m" and n: "width m \<noteq> 0x80000000"
    by (auto simp: abs_width_def split: if_splits)
  from True have "2 ^ 31 \<le> unat (width m)" by (simp add: neg_sint_iff)
  moreover from n have "unat (width m) \<noteq> 2 ^ 31"
    by (simp add: word_unat_eq_iff)
  moreover from True have "width m \<noteq> 0" by auto
  ultimately show ?thesis using w by (simp add: unat_neg32)
qed

lemma abs_height_bound: "unat (abs_height m) \<le> 2 ^ 31"
proof (cases "sint (height m) < 0")
  case False
  then show ?thesis by (simp add: abs_height_def neg_sint_iff)
next
  case True
  then have "2 ^ 31 \<le> unat (height m)" by (simp add: neg_sint_iff)
  moreover from True have "height m \<noteq> 0" by auto
  ultimately show ?thesis using True by (simp add: abs_height_def unat_neg32)
qed

lemma size_fits:
  assumes "abs_width m = Inr Ww"
  shows "unat Ww * unat (abs_height m) * 4 < 2 ^ 64"
proof -
  have "unat Ww * unat (abs_height m) \<le> (2 ^ 31 - 1) * 2 ^ 31"
    using abs_width_bound [OF assms] abs_height_bound [of m]
    by (intro mult_mono) simp_all
  then show ?thesis by simp
qed

subsection \<open>The row stride when it fits 32 bits\<close>

text \<open>
  When the byte count of a row, rounded up to a multiple of four, fits 32 bits, the
  stride is that number.
\<close>

lemma and_not_3: "unat ((x :: 32 word) AND NOT 3) = unat x div 4 * 4"
proof -
  have n3: "(NOT 3 :: 32 word) = NOT (mask 2)" by (simp add: mask_eq_exp_minus_1)
  have s2: "Suc (Suc (n - 2)) = n" if "2 \<le> n" for n :: nat using that by arith
  have "x AND NOT 3 = push_bit 2 (drop_bit 2 x)"
    unfolding n3 by (rule bit_eqI) (auto simp: bit_simps s2 not_less)
  then have "unat (x AND NOT 3) = take_bit 32 (push_bit 2 (drop_bit 2 (unat x)))"
    by (simp add: unsigned_push_bit_eq unat_drop_bit_eq)
  also have "push_bit 2 (drop_bit 2 (unat x)) = unat x div 4 * 4"
    by (simp add: push_bit_eq_mult drop_bit_eq_div)
  also have "take_bit 32 (unat x div 4 * 4) = unat x div 4 * 4"
  proof (rule take_bit_nat_eq_self)
    have "unat x div 4 * 4 \<le> unat x" by simp
    also have "unat x < 2 ^ 32" using unsigned_less [of x] by simp
    finally show "unat x div 4 * 4 < 2 ^ 32" .
  qed
  finally show ?thesis .
qed

theorem row_stride_exact:
  assumes "(unat w * unat b + 7) div 8 + 3 < 2 ^ 32"
  shows "unat (row_stride_aligned w b) = ((unat w * unat b + 7) div 8 + 3) div 4 * 4"
proof -
  let ?n = "unat w * unat b"
  have wb: "unat w < 2 ^ 32" "unat b < 2 ^ 16"
    using unsigned_less [of w] unsigned_less [of b] by simp_all
  then have "?n < 2 ^ 32 * 2 ^ 16" by (intro mult_strict_mono) simp_all
  then have n: "?n < 2 ^ 48" by simp
  let ?bits = "(ucast w :: 64 word) * ucast b"
  have uw: "unat (ucast w :: 64 word) = unat w"
    using wb(1) by (simp add: unsigned_ucast_eq take_bit_nat_eq_self)
  have ub: "unat (ucast b :: 64 word) = unat b"
    using wb(2) by (simp add: unsigned_ucast_eq take_bit_nat_eq_self)
  have "unat ?bits = ?n mod 2 ^ 64"
    by (simp only: unat_word_ariths uw ub) simp
  with n have bits: "unat ?bits = ?n" by simp
  have "unat (?bits + 7) = (unat ?bits + unat (7 :: 64 word)) mod 2 ^ 64"
    by (simp only: unat_word_ariths(1)) simp
  then have "unat (?bits + 7) = (?n + 7) mod 2 ^ 64"
    by (simp only: bits) simp
  with n have "unat (?bits + 7) = ?n + 7" by simp
  then have d: "unat ((?bits + 7) div 8) = (?n + 7) div 8"
    by (simp add: unat_div)
  let ?bytes = "(ucast ((?bits + 7) div 8) :: 32 word)"
  have "unat ?bytes = ((?n + 7) div 8) mod 2 ^ 32"
    by (simp add: unsigned_ucast_eq take_bit_eq_mod d)
  with assms have bytes: "unat ?bytes = (?n + 7) div 8" by simp
  have "unat (?bytes + 3) = ((?n + 7) div 8 + 3) mod 2 ^ 32"
    by (simp add: unat_word_ariths bytes)
  with assms have "unat (?bytes + 3) = (?n + 7) div 8 + 3" by simp
  then show ?thesis
    by (simp only: row_stride_aligned_def Let_def and_not_3)
qed

text \<open>The stride of a row of 257 pixels of 24 bits: 771 bytes, rounded up to 772.\<close>

theorem row_stride_exact_witness:
  "(unat (257 :: 32 word) * unat (24 :: 16 word) + 7) div 8 + 3 < 2 ^ 32
   \<and> unat (row_stride_aligned 257 24) = 772"
proof -
  have a: "(unat (257 :: 32 word) * unat (24 :: 16 word) + 7) div 8 + 3 < 2 ^ 32" by simp
  from row_stride_exact [OF a] a show ?thesis by simp
qed

subsection \<open>Results of a sequence of fallible steps\<close>

lemma bindE_Inr: "bindE m f = Inr r \<Longrightarrow> \<exists>v. m = Inr v \<and> f v = Inr r"
  by (cases m) (simp_all add: bindE_def)

subsection \<open>What the header readers keep\<close>

text \<open>
  The readers of the DIB header leave the pixel offset and the header size as lines
  210-211 stored them.
\<close>

definition same_offsets :: "Metadata \<Rightarrow> Metadata \<Rightarrow> bool" where
  "same_offsets m m' \<longleftrightarrow>
     file_offset_pixels m' = file_offset_pixels m \<and> header_size m' = header_size m"

lemma read_info_fields_frame: "read_info_fields dib m = Inr m' \<Longrightarrow> same_offsets m m'"
  unfolding read_info_fields_def same_offsets_def by (auto dest!: bindE_Inr)

lemma read_core_frame: "read_core dib m = Inr m' \<Longrightarrow> same_offsets m m'"
  unfolding read_core_def same_offsets_def by (auto dest!: bindE_Inr)

lemma read_os2_short_frame: "read_os2_short dib m = Inr m' \<Longrightarrow> same_offsets m m'"
  unfolding read_os2_short_def same_offsets_def by (auto dest!: bindE_Inr)

lemma read_rgb_masks_frame: "read_rgb_masks dib m = Inr m' \<Longrightarrow> same_offsets m m'"
  unfolding read_rgb_masks_def same_offsets_def by (auto dest!: bindE_Inr)

lemma read_alpha_mask_frame: "read_alpha_mask dib m = Inr m' \<Longrightarrow> same_offsets m m'"
  unfolding read_alpha_mask_def same_offsets_def by (auto dest!: bindE_Inr)

lemma read_masks_frame: "read_masks n dib dib_size m = Inr m' \<Longrightarrow> same_offsets m m'"
  unfolding read_masks_def
  by (auto simp: same_offsets_def split: if_splits
           dest!: bindE_Inr read_rgb_masks_frame read_alpha_mask_frame)

lemma read_v4_frame: "read_v4 dib m = Inr m' \<Longrightarrow> same_offsets m m'"
  unfolding read_v4_def same_offsets_def by (auto dest!: bindE_Inr)

lemma read_v5_frame: "read_v5 p dib m = Inr m' \<Longrightarrow> same_offsets m m'"
  unfolding read_v5_def same_offsets_def
  by (auto simp: Let_def split: if_splits dest!: bindE_Inr)

lemma read_dib_frame:
  assumes "read_dib p dib dib_size m = Inr m'"
  shows "same_offsets m m'"
  using assms unfolding read_dib_def
  by (auto simp: same_offsets_def split: if_splits
           dest!: bindE_Inr read_core_frame read_os2_short_frame read_info_fields_frame
                  read_masks_frame read_v4_frame read_v5_frame)

text \<open>A parsed header is the result of the dispatch on its own header size.\<close>

lemma parse_header_dib:
  assumes "parse_header p = Inr m"
  shows "\<exists>off fs. unat off \<le> length p
           \<and> read_dib p (drop 14 p) (header_size m) (init_meta off (header_size m) fs) = Inr m
           \<and> file_offset_pixels m = off"
proof -
  from assms have "\<exists>off fs ds. unat off \<le> length p
      \<and> read_dib p (drop 14 p) ds (init_meta off ds fs) = Inr m"
    unfolding parse_header_def
    by (fastforce simp: not_less split: if_splits dest!: bindE_Inr)
  then obtain off fs ds where le: "unat off \<le> length p"
    and rd: "read_dib p (drop 14 p) ds (init_meta off ds fs) = Inr m"
    by blast
  from read_dib_frame [OF rd] have "header_size m = ds" "file_offset_pixels m = off"
    by (simp_all add: same_offsets_def init_meta_def)
  with le rd show ?thesis by blast
qed

lemma parse_header_offset:
  assumes "parse_header p = Inr m"
  shows "unat (file_offset_pixels m) \<le> length p"
  using parse_header_dib [OF assms] by auto

section \<open>Evaluating the decoder on concrete files\<close>

lemma replicate_numeral: "replicate (numeral k) x = x # replicate (pred_numeral k) x"
  by (simp add: numeral_eq_Suc)

lemmas header_defs =
  parse_def parse_header_def read_dib_def read_info_fields_def read_masks_def
  read_rgb_masks_def read_alpha_mask_def check_fields_def read_palette_def
  default_palette_entries_def read_entry3_def read_entry4_def init_meta_def
  init_image_def win_dib_type_def le32_def le16_def rd_def bindE_def pix_size_of_def
  decode_pixels_def is_stream_def is_bitfields_def BI_RGB_def BI_RLE8_def BI_RLE4_def
  BI_BITFIELDS_def BI_JPEG_def BI_PNG_def BI_ALPHABITFIELDS_def zero_masks_def
  zero_xyz_def LCS_sRGB_def u32_def Let_def for_loop.simps

lemmas packed_defs =
  decode_bitfields_def decode_bgr24_def abs_width_def abs_height_def top_down_def
  row_stride_aligned_def looks8_def default_masks32_def default_masks16_def
  memcpy_row_def bitfields_pixel_def store4_def expose_embedded_stream_def

lemmas rle_defs =
  decode_rle8_def rle8_final_def rle8_loop.simps rle8_step_def rle8_run.simps
  rle8_abs.simps rle8_delta_def decode_rle4_def rle4_final_def rle4_loop.simps
  rle4_step_def rle4_run.simps rle4_abs.simps rle4_delta_def rle_init_def rle_put_def
  pal_lookup_def dest_row_def adv_y_def abs_width_def abs_height_def top_down_def
  store4_def

text \<open>Scenario S5 of the specification: a 40-byte INFO header (width 1, height 1, planes 1,
  16 bits per pixel, compression 3), the masks \<open>0xF800\<close>, \<open>0x07E0\<close>, \<open>0x001F\<close> behind the
  header, and one row: the pixel \<open>0xFFFF\<close> and two bytes of padding.\<close>

definition s5_input :: "byte list" where
  "s5_input =
     [0x42, 0x4D, 0x46, 0x00, 0x00, 0x00,
      0x00, 0x00, 0x00, 0x00, 0x42, 0x00, 0x00, 0x00,
      0x28, 0x00, 0x00, 0x00, 0x01, 0x00, 0x00, 0x00, 0x01, 0x00, 0x00, 0x00,
      0x01, 0x00, 0x10, 0x00, 0x03, 0x00, 0x00, 0x00, 0x00, 0x00, 0x00, 0x00,
      0x00, 0x00, 0x00, 0x00, 0x00, 0x00, 0x00, 0x00, 0x00, 0x00, 0x00, 0x00, 0x00, 0x00, 0x00, 0x00,
      0x00, 0xF8, 0x00, 0x00, 0xE0, 0x07, 0x00, 0x00, 0x1F, 0x00, 0x00, 0x00,
      0xFF, 0xFF, 0x00, 0x00]"

text \<open>The same image with compression 0 and no masks in the file (the default 5-5-5 masks).\<close>

definition rgb555_input :: "byte list" where
  "rgb555_input =
     [0x42, 0x4D, 0x3A, 0x00, 0x00, 0x00,
      0x00, 0x00, 0x00, 0x00, 0x36, 0x00, 0x00, 0x00,
      0x28, 0x00, 0x00, 0x00, 0x01, 0x00, 0x00, 0x00, 0x01, 0x00, 0x00, 0x00,
      0x01, 0x00, 0x10, 0x00, 0x00, 0x00, 0x00, 0x00, 0x00, 0x00, 0x00, 0x00,
      0x00, 0x00, 0x00, 0x00, 0x00, 0x00, 0x00, 0x00, 0x00, 0x00, 0x00, 0x00, 0x00, 0x00, 0x00, 0x00,
      0xFF, 0xFF, 0x00, 0x00]"

text \<open>A 54-byte file: a 40-byte INFO header with width \<open>0x40000000\<close>, height 1, planes 1,
  32 bits per pixel, compression 0, pixel offset 54, and no pixel data.\<close>

definition wide32_input :: "byte list" where
  "wide32_input =
     [0x42, 0x4D, 0x36, 0x00, 0x00, 0x00,
      0x00, 0x00, 0x00, 0x00, 0x36, 0x00, 0x00, 0x00,
      0x28, 0x00, 0x00, 0x00, 0x00, 0x00, 0x00, 0x40, 0x01, 0x00, 0x00, 0x00,
      0x01, 0x00, 0x20, 0x00, 0x00, 0x00, 0x00, 0x00, 0x00, 0x00, 0x00, 0x00,
      0x00, 0x00, 0x00, 0x00, 0x00, 0x00, 0x00, 0x00, 0x00, 0x00, 0x00, 0x00, 0x00, 0x00, 0x00, 0x00]"

text \<open>A 24-bpp file of one pixel whose width field is \<open>-1\<close>.\<close>

definition neg_width_input :: "byte list" where
  "neg_width_input =
     [0x42, 0x4D, 0x3A, 0x00, 0x00, 0x00,
      0x00, 0x00, 0x00, 0x00, 0x36, 0x00, 0x00, 0x00,
      0x28, 0x00, 0x00, 0x00, 0xFF, 0xFF, 0xFF, 0xFF, 0x01, 0x00, 0x00, 0x00,
      0x01, 0x00, 0x18, 0x00, 0x00, 0x00, 0x00, 0x00, 0x00, 0x00, 0x00, 0x00,
      0x00, 0x00, 0x00, 0x00, 0x00, 0x00, 0x00, 0x00, 0x00, 0x00, 0x00, 0x00, 0x00, 0x00, 0x00, 0x00,
      0x01, 0x02, 0x03, 0x00]"

text \<open>The same file with width 0.\<close>

definition zero_width_input :: "byte list" where
  "zero_width_input =
     [0x42, 0x4D, 0x3A, 0x00, 0x00, 0x00,
      0x00, 0x00, 0x00, 0x00, 0x36, 0x00, 0x00, 0x00,
      0x28, 0x00, 0x00, 0x00, 0x00, 0x00, 0x00, 0x00, 0x01, 0x00, 0x00, 0x00,
      0x01, 0x00, 0x18, 0x00, 0x00, 0x00, 0x00, 0x00, 0x00, 0x00, 0x00, 0x00,
      0x00, 0x00, 0x00, 0x00, 0x00, 0x00, 0x00, 0x00, 0x00, 0x00, 0x00, 0x00, 0x00, 0x00, 0x00, 0x00,
      0x01, 0x02, 0x03, 0x00]"

text \<open>A 24-bpp file of one pixel whose planes field is 2.\<close>

definition two_planes_input :: "byte list" where
  "two_planes_input =
     [0x42, 0x4D, 0x3A, 0x00, 0x00, 0x00,
      0x00, 0x00, 0x00, 0x00, 0x36, 0x00, 0x00, 0x00,
      0x28, 0x00, 0x00, 0x00, 0x01, 0x00, 0x00, 0x00, 0x01, 0x00, 0x00, 0x00,
      0x02, 0x00, 0x18, 0x00, 0x00, 0x00, 0x00, 0x00, 0x00, 0x00, 0x00, 0x00,
      0x00, 0x00, 0x00, 0x00, 0x00, 0x00, 0x00, 0x00, 0x00, 0x00, 0x00, 0x00, 0x00, 0x00, 0x00, 0x00,
      0x01, 0x02, 0x03, 0x00]"

text \<open>The same file with planes 0.\<close>

definition zero_planes_input :: "byte list" where
  "zero_planes_input =
     [0x42, 0x4D, 0x3A, 0x00, 0x00, 0x00,
      0x00, 0x00, 0x00, 0x00, 0x36, 0x00, 0x00, 0x00,
      0x28, 0x00, 0x00, 0x00, 0x01, 0x00, 0x00, 0x00, 0x01, 0x00, 0x00, 0x00,
      0x00, 0x00, 0x18, 0x00, 0x00, 0x00, 0x00, 0x00, 0x00, 0x00, 0x00, 0x00,
      0x00, 0x00, 0x00, 0x00, 0x00, 0x00, 0x00, 0x00, 0x00, 0x00, 0x00, 0x00, 0x00, 0x00, 0x00, 0x00,
      0x01, 0x02, 0x03, 0x00]"

text \<open>An RLE4 file: width 1, height 1, 4 bits per pixel, compression 2, one palette entry,
  and the stream \<open>00 02 05 05\<close> (a delta escape with \<open>dx = dy = 5\<close>).\<close>

definition rle4_delta_input :: "byte list" where
  "rle4_delta_input =
     [0x42, 0x4D, 0x3E, 0x00, 0x00, 0x00,
      0x00, 0x00, 0x00, 0x00, 0x3A, 0x00, 0x00, 0x00,
      0x28, 0x00, 0x00, 0x00, 0x01, 0x00, 0x00, 0x00, 0x01, 0x00, 0x00, 0x00,
      0x01, 0x00, 0x04, 0x00, 0x02, 0x00, 0x00, 0x00, 0x00, 0x00, 0x00, 0x00,
      0x00, 0x00, 0x00, 0x00, 0x00, 0x00, 0x00, 0x00, 0x01, 0x00, 0x00, 0x00, 0x00, 0x00, 0x00, 0x00,
      0x0A, 0x14, 0x1E, 0x00,
      0x00, 0x02, 0x05, 0x05]"
text \<open>
  Scenario S4 of the specification: an RLE8 file of width 3 and height 1 (40-byte INFO
  header, 8 bits per pixel, compression 1, two colours used) with the palette entries
  \<open>e0\<close> and \<open>e1\<close> and the stream \<open>00 03 00 01 00 00 01\<close>.
\<close>

definition entry_bytes :: "PaletteEntry \<Rightarrow> byte list" where
  "entry_bytes e = [pe_b e, pe_g e, pe_r e, pe_a e]"

definition s4_input :: "PaletteEntry \<Rightarrow> PaletteEntry \<Rightarrow> byte list" where
  "s4_input e0 e1 =
     [0x42, 0x4D, 0x45, 0x00, 0x00, 0x00,
      0x00, 0x00, 0x00, 0x00, 0x3E, 0x00, 0x00, 0x00,
      0x28, 0x00, 0x00, 0x00, 0x03, 0x00, 0x00, 0x00, 0x01, 0x00, 0x00, 0x00,
      0x01, 0x00, 0x08, 0x00, 0x01, 0x00, 0x00, 0x00, 0x00, 0x00, 0x00, 0x00,
      0x00, 0x00, 0x00, 0x00, 0x00, 0x00, 0x00, 0x00, 0x02, 0x00, 0x00, 0x00, 0x00, 0x00, 0x00, 0x00]
     @ entry_bytes e0 @ entry_bytes e1
     @ [0x00, 0x03, 0x00, 0x01, 0x00, 0x00, 0x01]"
text \<open>A file with compression 5 (BI_PNG), 32 bits per pixel, \<open>image_size = 3\<close> and five bytes
  behind the header.\<close>

definition png3_input :: "byte list" where
  "png3_input =
     [0x42, 0x4D, 0x3B, 0x00, 0x00, 0x00,
      0x00, 0x00, 0x00, 0x00, 0x36, 0x00, 0x00, 0x00,
      0x28, 0x00, 0x00, 0x00, 0x01, 0x00, 0x00, 0x00, 0x01, 0x00, 0x00, 0x00,
      0x01, 0x00, 0x20, 0x00, 0x05, 0x00, 0x00, 0x00, 0x03, 0x00, 0x00, 0x00,
      0x00, 0x00, 0x00, 0x00, 0x00, 0x00, 0x00, 0x00, 0x00, 0x00, 0x00, 0x00, 0x00, 0x00, 0x00, 0x00,
      0x01, 0x02, 0x03, 0x04, 0x05]"

text \<open>The same file with \<open>image_size = 9\<close>, more than the five bytes that remain.\<close>

definition png9_input :: "byte list" where
  "png9_input =
     [0x42, 0x4D, 0x3B, 0x00, 0x00, 0x00,
      0x00, 0x00, 0x00, 0x00, 0x36, 0x00, 0x00, 0x00,
      0x28, 0x00, 0x00, 0x00, 0x01, 0x00, 0x00, 0x00, 0x01, 0x00, 0x00, 0x00,
      0x01, 0x00, 0x20, 0x00, 0x05, 0x00, 0x00, 0x00, 0x09, 0x00, 0x00, 0x00,
      0x00, 0x00, 0x00, 0x00, 0x00, 0x00, 0x00, 0x00, 0x00, 0x00, 0x00, 0x00, 0x00, 0x00, 0x00, 0x00,
      0x01, 0x02, 0x03, 0x04, 0x05]"
text \<open>A 58-byte file: 40-byte INFO header, width 1, height 1, 16 bits per pixel, compression
  3 (BI_BITFIELDS), no mask bytes, and one row: the pixel \<open>0x1234\<close> and two bytes of
  padding.\<close>

definition nomask16_input :: "byte list" where
  "nomask16_input =
     [0x42, 0x4D, 0x3A, 0x00, 0x00, 0x00,
      0x00, 0x00, 0x00, 0x00, 0x36, 0x00, 0x00, 0x00,
      0x28, 0x00, 0x00, 0x00, 0x01, 0x00, 0x00, 0x00, 0x01, 0x00, 0x00, 0x00,
      0x01, 0x00, 0x10, 0x00, 0x03, 0x00, 0x00, 0x00, 0x00, 0x00, 0x00, 0x00,
      0x00, 0x00, 0x00, 0x00, 0x00, 0x00, 0x00, 0x00, 0x00, 0x00, 0x00, 0x00, 0x00, 0x00, 0x00, 0x00,
      0x34, 0x12, 0x00, 0x00]"

text \<open>The same header with no byte behind it.\<close>

definition nomask16_empty_input :: "byte list" where
  "nomask16_empty_input =
     [0x42, 0x4D, 0x36, 0x00, 0x00, 0x00,
      0x00, 0x00, 0x00, 0x00, 0x36, 0x00, 0x00, 0x00,
      0x28, 0x00, 0x00, 0x00, 0x01, 0x00, 0x00, 0x00, 0x01, 0x00, 0x00, 0x00,
      0x01, 0x00, 0x10, 0x00, 0x03, 0x00, 0x00, 0x00, 0x00, 0x00, 0x00, 0x00,
      0x00, 0x00, 0x00, 0x00, 0x00, 0x00, 0x00, 0x00, 0x00, 0x00, 0x00, 0x00, 0x00, 0x00, 0x00, 0x00]"

text \<open>Scenario S1 of the specification: 2 by 2, 24 bits per pixel, bottom-up, solid red; two
  rows of 8 bytes.\<close>

definition s1_input :: "byte list" where
  "s1_input =
     [0x42, 0x4D, 0x46, 0x00, 0x00, 0x00,
      0x00, 0x00, 0x00, 0x00, 0x36, 0x00, 0x00, 0x00,
      0x28, 0x00, 0x00, 0x00, 0x02, 0x00, 0x00, 0x00, 0x02, 0x00, 0x00, 0x00,
      0x01, 0x00, 0x18, 0x00, 0x00, 0x00, 0x00, 0x00, 0x10, 0x00, 0x00, 0x00,
      0x00, 0x00, 0x00, 0x00, 0x00, 0x00, 0x00, 0x00, 0x00, 0x00, 0x00, 0x00, 0x00, 0x00, 0x00, 0x00,
      0x00, 0x00, 0xFF, 0x00, 0x00, 0xFF, 0x00, 0x00,
      0x00, 0x00, 0xFF, 0x00, 0x00, 0xFF, 0x00, 0x00]"

text \<open>Scenario S2: 1 by 1, 32 bits per pixel, BI_RGB, the pixel bytes \<open>11 22 33 44\<close>.\<close>

definition s2_input :: "byte list" where
  "s2_input =
     [0x42, 0x4D, 0x3A, 0x00, 0x00, 0x00,
      0x00, 0x00, 0x00, 0x00, 0x36, 0x00, 0x00, 0x00,
      0x28, 0x00, 0x00, 0x00, 0x01, 0x00, 0x00, 0x00, 0x01, 0x00, 0x00, 0x00,
      0x01, 0x00, 0x20, 0x00, 0x00, 0x00, 0x00, 0x00, 0x00, 0x00, 0x00, 0x00,
      0x00, 0x00, 0x00, 0x00, 0x00, 0x00, 0x00, 0x00, 0x00, 0x00, 0x00, 0x00, 0x00, 0x00, 0x00, 0x00,
      0x11, 0x22, 0x33, 0x44]"

text \<open>Scenario S3: 2 by 1, 8 bits per pixel, top-down (height \<open>-1\<close>), a palette of black and
  white, and the row \<open>01 00\<close> with two bytes of padding.\<close>

definition s3_input :: "byte list" where
  "s3_input =
     [0x42, 0x4D, 0x42, 0x00, 0x00, 0x00,
      0x00, 0x00, 0x00, 0x00, 0x3E, 0x00, 0x00, 0x00,
      0x28, 0x00, 0x00, 0x00, 0x02, 0x00, 0x00, 0x00, 0xFF, 0xFF, 0xFF, 0xFF,
      0x01, 0x00, 0x08, 0x00, 0x00, 0x00, 0x00, 0x00, 0x00, 0x00, 0x00, 0x00,
      0x00, 0x00, 0x00, 0x00, 0x00, 0x00, 0x00, 0x00, 0x02, 0x00, 0x00, 0x00, 0x00, 0x00, 0x00, 0x00,
      0x00, 0x00, 0x00, 0x00,
      0xFF, 0xFF, 0xFF, 0x00,
      0x01, 0x00, 0x00, 0x00]"

text \<open>Scenario S6: 1 by 1, 32 bits per pixel, a 56-byte V3 header with compression 3 and the
  10-10-10-2 masks, and the pixel bytes \<open>78 56 34 12\<close>.\<close>

definition s6_input :: "byte list" where
  "s6_input =
     [0x42, 0x4D, 0x4A, 0x00, 0x00, 0x00,
      0x00, 0x00, 0x00, 0x00, 0x46, 0x00, 0x00, 0x00,
      0x38, 0x00, 0x00, 0x00, 0x01, 0x00, 0x00, 0x00, 0x01, 0x00, 0x00, 0x00,
      0x01, 0x00, 0x20, 0x00, 0x03, 0x00, 0x00, 0x00, 0x00, 0x00, 0x00, 0x00,
      0x00, 0x00, 0x00, 0x00, 0x00, 0x00, 0x00, 0x00, 0x00, 0x00, 0x00, 0x00, 0x00, 0x00, 0x00, 0x00,
      0x00, 0x00, 0xF0, 0x3F, 0x00, 0xFC, 0x0F, 0x00, 0xFF, 0x03, 0x00, 0x00, 0x00, 0x00, 0x00, 0xC0,
      0x78, 0x56, 0x34, 0x12]"

text \<open>
  A 24-bpp header with width \<open>0x55555556\<close>, height 1 and \<open>image_size = 4\<close>. One row of
  this width has \<open>3 * 0x55555556 = 2^32 + 2\<close> bytes.
\<close>

definition region24_header :: "byte list" where
  "region24_header =
     [0x42, 0x4D, 0x00, 0x00, 0x00, 0x00,
      0x00, 0x00, 0x00, 0x00, 0x36, 0x00, 0x00, 0x00,
      0x28, 0x00, 0x00, 0x00, 0x56, 0x55, 0x55, 0x55, 0x01, 0x00, 0x00, 0x00,
      0x01, 0x00, 0x18, 0x00, 0x00, 0x00, 0x00, 0x00, 0x04, 0x00, 0x00, 0x00,
      0x00, 0x00, 0x00, 0x00, 0x00, 0x00, 0x00, 0x00, 0x00, 0x00, 0x00, 0x00, 0x00, 0x00, 0x00, 0x00]"

text \<open>The header followed by \<open>2^32 + 2\<close> bytes, the first four of which are the region that
  \<open>image_size\<close> names; the last byte is 9.\<close>

definition region24_input :: "byte list" where
  "region24_input = region24_header @ [1, 2, 3, 4] @ replicate 4294967293 0 @ [9]"

text \<open>The header followed by the four bytes of the region and nothing else.\<close>

definition region24_short_input :: "byte list" where
  "region24_short_input = region24_header @ [1, 2, 3, 4]"

section \<open>The claims\<close>

subsection \<open>C1: no access outside the buffer\<close>

text \<open>
  Claim C1 says that for every input buffer the decoder returns an image or a parse error
  without reading outside the buffer, and that the row stride and the other sizes are
  computed without wrap-around. On \<open>wide32_input\<close> the stride is computed as 0: the byte
  count \<open>2 ^ 32\<close> of a row does not fit the \<^verbatim>\<open>uint32_t\<close> it is cast to. The
  check of line 811 passes with \<open>needed = 0\<close>, and the first pixel is read from behind
  the end of the 54-byte buffer.
\<close>

theorem stride_wrap_reads_out_of_bounds:
  "parse wide32_input = Inl OutOfBounds"
  by (simp add: wide32_input_def header_defs packed_defs)

subsection \<open>C2: 16-bpp images with masks below 8 bits\<close>

text \<open>
  Claim C2 says that a 1-by-1 16-bpp image with the 5-6-5 masks under BI_BITFIELDS, or
  with the default 5-5-5 masks under BI_RGB, and the pixel \<open>0xFFFF\<close> decodes to BGRA8
  with the bytes \<open>FF FF FF FF\<close>. The decoder returns the format \<open>RawBitfields\<close> and the
  two source bytes for both files, since \<open>looks8\<close> holds for 8-bit masks only.
\<close>

theorem sub8_masks_give_raw_bitfields:
  "\<not> isl (parse s5_input)
   \<and> format (projr (parse s5_input)) = RawBitfields
   \<and> pixels (projr (parse s5_input)) = [0xFF, 0xFF]
   \<and> \<not> isl (parse rgb555_input)
   \<and> format (projr (parse rgb555_input)) = RawBitfields
   \<and> pixels (projr (parse rgb555_input)) = [0xFF, 0xFF]"
  by (simp add: s5_input_def rgb555_input_def header_defs packed_defs)

subsection \<open>C3: the width field\<close>

text \<open>
  Claim C3 says that every input whose parsed width is negative fails with a parse
  error. The file \<open>neg_width_input\<close> has the width \<open>-1\<close> and decodes to one BGR8 pixel:
  line 346 rejects the width 0 only, and every decoder takes the absolute value.
\<close>

theorem negative_width_decodes:
  "\<not> isl (parse_header neg_width_input)
   \<and> sint (width (projr (parse_header neg_width_input))) = - 1
   \<and> \<not> isl (parse neg_width_input)
   \<and> format (projr (parse neg_width_input)) = BGR8
   \<and> pixels (projr (parse neg_width_input)) = [1, 2, 3]"
  by (simp add: neg_width_input_def header_defs packed_defs)

text \<open>
  Claim C3 as amended: every input whose parsed width is zero fails with a parse error
  and returns no image.
\<close>

theorem zero_width_rejected:
  assumes "parse_header p = Inr m" and "width m = 0"
  shows "\<exists>msg. parse p = Inl (ParseError msg)"
  using assms by (simp add: parse_def bindE_def check_fields_def)

text \<open>The amended claim C3 on \<open>zero_width_input\<close>.\<close>

theorem zero_width_rejected_witness:
  "parse_header zero_width_input = Inr (projr (parse_header zero_width_input))
   \<and> width (projr (parse_header zero_width_input)) = 0
   \<and> (\<exists>msg. parse zero_width_input = Inl (ParseError msg))"
proof -
  have h: "parse_header zero_width_input = Inr (projr (parse_header zero_width_input))"
    by (simp add: zero_width_input_def header_defs)
  have w: "width (projr (parse_header zero_width_input)) = 0"
    by (simp add: zero_width_input_def header_defs)
  from zero_width_rejected [OF h w] h w show ?thesis by blast
qed

subsection \<open>C4: the planes field\<close>

text \<open>
  Claim C4 says that every input whose parsed planes field is not 1 fails with a parse
  error. The file \<open>two_planes_input\<close> has 2 planes and decodes to one BGR8 pixel:
  line 340 rejects the value 0 only.
\<close>

theorem two_planes_decodes:
  "\<not> isl (parse_header two_planes_input)
   \<and> planes (projr (parse_header two_planes_input)) = 2
   \<and> \<not> isl (parse two_planes_input)
   \<and> format (projr (parse two_planes_input)) = BGR8
   \<and> pixels (projr (parse two_planes_input)) = [1, 2, 3]"
  by (simp add: two_planes_input_def header_defs packed_defs)

text \<open>
  Claim C4 as amended: every input whose parsed planes field is 0 fails with the parse
  error "Invalid planes".
\<close>

theorem zero_planes_rejected:
  assumes "parse_header p = Inr m" and "planes m = 0"
  shows "parse p = Inl (ParseError ''Invalid planes'')"
  using assms by (simp add: parse_def bindE_def check_fields_def)

text \<open>The amended claim C4 on \<open>zero_planes_input\<close>.\<close>

theorem zero_planes_rejected_witness:
  "parse_header zero_planes_input = Inr (projr (parse_header zero_planes_input))
   \<and> planes (projr (parse_header zero_planes_input)) = 0
   \<and> parse zero_planes_input = Inl (ParseError ''Invalid planes'')"
proof -
  have h: "parse_header zero_planes_input = Inr (projr (parse_header zero_planes_input))"
    by (simp add: zero_planes_input_def header_defs)
  have w: "planes (projr (parse_header zero_planes_input)) = 0"
    by (simp add: zero_planes_input_def header_defs)
  from zero_planes_rejected [OF h w] h w show ?thesis by blast
qed

subsection \<open>C5: the delta escape\<close>

text \<open>
  Claim C5 says that in both run-length decoders the delta escape clamps \<open>x\<close> to the
  width and \<open>y\<close> to the height. RLE8 does (\<open>rle8_delta\<close>, lines 628-632); RLE4 adds
  the two bytes and does not clamp (\<open>rle4_delta\<close>, lines 720-721). On the stream of
  \<open>rle4_delta_input\<close>, an image of width 1 and height 1, the pass through the loop body
  that reads the escape ends in the state \<open>x = 5\<close>, \<open>y = 5\<close>.
\<close>

theorem rle4_delta_not_clamped:
  "rle4_step (drop 58 rle4_delta_input) 4 pal 1 1 False (rle_init 1 1)
     = Inr (Continue ((rle_init 1 1)\<lparr>cur_x := 5, cur_y := 5, cur_i := 4\<rparr>))
   \<and> \<not> isl (parse rle4_delta_input)"
  by (simp add: rle4_delta_input_def header_defs rle_defs)

subsection \<open>C6: channel normalisation\<close>

text \<open>
  The algorithm of section 4.8 of the specification, in its words, on natural numbers:
  the shift is the count of trailing zero bits of the mask, the width is the count of
  contiguous set bits starting at the shift, the raw component is
  \<open>(v AND M) >> shift\<close>; for a width of 8 or more the output is \<open>c >> (width - 8)\<close>,
  otherwise \<open>c\<close> is concatenated into itself (\<open>x = (x << width) OR c\<close>, the width
  doubling) until the width is 8 or more, and the low 8 bits are taken.
\<close>

definition spec_shift :: "nat \<Rightarrow> nat" where
  "spec_shift M = length (takeWhile (\<lambda>n. \<not> bit M n) [0..<32])"

definition spec_width :: "nat \<Rightarrow> nat" where
  "spec_width M = length (takeWhile (\<lambda>n. bit M n) [spec_shift M..<32])"

function spec_replicate :: "nat \<Rightarrow> nat \<Rightarrow> nat \<Rightarrow> nat" where
  "spec_replicate c x w =
     (if 0 < w \<and> w < 8 then spec_replicate c (push_bit w x OR c) (2 * w) else x)"
  by pat_completeness auto
termination
  by (relation "measure (\<lambda>(c, x, w). 8 - w)") auto

declare spec_replicate.simps [simp del]

definition spec_norm :: "nat \<Rightarrow> nat \<Rightarrow> nat" where
  "spec_norm v M =
     (let shift = spec_shift M;
          w = spec_width M;
          c = drop_bit shift (v AND M)
      in if 8 \<le> w then drop_bit (w - 8) c
         else take_bit 8 (spec_replicate c c w))"

lemma word_low_bit: "(drop_bit s (M :: 32 word) AND 1 = 0) \<longleftrightarrow> \<not> bit M s"
  by (simp add: and_one_eq bit_iff_odd_drop_bit even_iff_mod_2_eq_zero)

lemma ctz_loop_eq:
  "ctz_loop M s = s + length (takeWhile (\<lambda>n. \<not> bit M n) [s..<32])"
proof (induction M s rule: ctz_loop.induct)
  case (1 M s)
  show ?case
  proof (cases "s < 32 \<and> drop_bit s M AND 1 = 0")
    case True
    then have "ctz_loop M s = ctz_loop M (s + 1)"
      by (subst ctz_loop.simps) simp
    also have "\<dots> = (s + 1) + length (takeWhile (\<lambda>n. \<not> bit M n) [s + 1..<32])"
      using "1.IH" True by simp
    also have "\<dots> = s + length (takeWhile (\<lambda>n. \<not> bit M n) [s..<32])"
      using True by (simp add: upt_conv_Cons word_low_bit)
    finally show ?thesis .
  next
    case False
    then have "ctz_loop M s = s" by (subst ctz_loop.simps) auto
    moreover have "takeWhile (\<lambda>n. \<not> bit M n) [s..<32] = []"
      using False by (cases "s < 32") (simp_all add: upt_conv_Cons word_low_bit)
    ultimately show ?thesis by simp
  qed
qed

lemma width_loop_eq:
  "m = drop_bit s M \<Longrightarrow> width_loop m w = w + length (takeWhile (bit M) [s..<32])"
proof (induction m w arbitrary: s rule: width_loop.induct)
  case (1 m w)
  show ?case
  proof (cases "m AND 1 \<noteq> 0")
    case True
    with "1.prems" have b: "bit M s" by (simp add: word_low_bit)
    then have s: "s < 32" by (auto dest: bit_imp_le_length)
    have "width_loop m w = width_loop (drop_bit 1 m) (w + 1)"
      using True by (subst width_loop.simps) simp
    also have "\<dots> = (w + 1) + length (takeWhile (bit M) [s + 1..<32])"
      using "1.IH" [OF True, of "s + 1"] "1.prems" by (simp add: drop_bit_drop_bit)
    also have "\<dots> = w + length (takeWhile (bit M) [s..<32])"
      using b s by (simp add: upt_conv_Cons)
    finally show ?thesis .
  next
    case False
    then have "width_loop m w = w" by (subst width_loop.simps) simp
    moreover from False "1.prems" have "\<not> bit M s" by (simp add: word_low_bit)
    then have "takeWhile (bit M) [s..<32] = []"
      by (cases "s < 32") (simp_all add: upt_conv_Cons)
    ultimately show ?thesis by simp
  qed
qed

lemma spec_replicate_word:
  "(of_nat (spec_replicate c x w) :: 32 word) = replicate_loop (of_nat c) (of_nat x) w"
proof (induction c x w rule: spec_replicate.induct)
  case (1 c x w)
  show ?case
  proof (cases "0 < w \<and> w < 8")
    case True
    then show ?thesis
      using "1.IH"
      by (subst spec_replicate.simps, subst replicate_loop.simps)
         (simp add: of_nat_or_eq of_nat_push_bit)
  next
    case False
    then show ?thesis
      by (subst spec_replicate.simps, subst replicate_loop.simps) auto
  qed
qed

lemma bit_unat_word: "bit (unat (M :: 32 word)) n \<longleftrightarrow> bit M n"
  by (simp add: bit_unsigned_iff)

lemma unat_ucast8: "unat (ucast (x :: 32 word) :: byte) = unat x mod 256"
  by (simp add: unsigned_ucast_eq take_bit_eq_mod)

lemma low8_of_word:
  "take_bit 8 (unat ((of_nat N :: 32 word) AND mask 8)) = take_bit 8 N"
proof -
  have "unat ((of_nat N :: 32 word) AND mask 8) = take_bit 8 (N mod 2 ^ 32)"
    by (simp add: take_bit_eq_mask [symmetric] unsigned_take_bit_eq unat_of_nat)
  moreover have "(N mod 2 ^ 32) mod 2 ^ 8 = N mod 2 ^ 8"
    by (rule mod_mod_cancel) simp
  ultimately show ?thesis by (simp add: take_bit_eq_mod)
qed

lemma ctz_loop_spec: "ctz_loop M 0 = spec_shift (unat M)"
  by (simp add: ctz_loop_eq spec_shift_def bit_unat_word)

lemma width_loop_spec:
  "width_loop (drop_bit (ctz_loop M 0) M) 0 = spec_width (unat M)"
  by (simp add: width_loop_eq [OF refl] spec_width_def bit_unat_word ctz_loop_spec [symmetric])

lemma spec_shift_bit:
  assumes "M \<noteq> (0 :: 32 word)"
  shows "spec_shift (unat M) < 32 \<and> bit (unat M) (spec_shift (unat M))"
proof -
  from assms obtain n where n: "bit M n"
    by (auto simp: bit_eq_iff)
  then have n32: "n < 32" by (auto dest: bit_imp_le_length)
  let ?P = "\<lambda>n. \<not> bit (unat M) n"
  let ?s = "spec_shift (unat M)"
  have "\<not> (\<forall>k \<in> set [0..<32]. ?P k)" using n n32 by (auto simp: bit_unat_word)
  then have "takeWhile ?P [0..<32] \<noteq> [0..<32]"
    by (simp only: takeWhile_eq_all_conv not_False_eq_True)
  then have "length (takeWhile ?P [0..<32]) \<noteq> length [0..<32]"
    using takeWhile_eq_take [of ?P "[0..<32]"] by auto
  with length_takeWhile_le [of ?P "[0..<32]"] have less: "?s < length [0..<32]"
    unfolding spec_shift_def by linarith
  then have "\<not> ?P ([0..<32] ! ?s)"
    unfolding spec_shift_def by (rule nth_length_takeWhile)
  with less show ?thesis by simp
qed

text \<open>The loop of lines 775-777 stops at a set bit: its guard \<open>shift < 32\<close> is idle.\<close>

lemma ctz_loop_bit: "M \<noteq> 0 \<Longrightarrow> ctz_loop M 0 < 32 \<and> bit M (ctz_loop M 0)"
  using spec_shift_bit [of M] by (simp add: ctz_loop_spec bit_unat_word)

lemma spec_width_pos:
  assumes "M \<noteq> (0 :: 32 word)"
  shows "0 < spec_width (unat M)"
  using spec_shift_bit [OF assms] by (simp add: spec_width_def upt_conv_Cons)

lemma bit_extract_norm_mod:
  assumes "M \<noteq> 0"
  shows "unat (bit_extract_norm v M) = spec_norm (unat v) (unat M) mod 256"
proof -
  let ?s = "spec_shift (unat M)" and ?w = "spec_width (unat M)"
  let ?c = "drop_bit ?s (v AND M)"
  have c: "unat ?c = drop_bit ?s (unat v AND unat M)"
    by (simp add: unat_drop_bit_eq unsigned_and_eq)
  have pos: "0 < ?w" using assms by (rule spec_width_pos)
  show ?thesis
  proof (cases "8 \<le> ?w")
    case True
    then have "bit_extract_norm v M = ucast (drop_bit (?w - 8) ?c)"
      using assms by (simp add: bit_extract_norm_def Let_def ctz_loop_spec width_loop_spec [unfolded ctz_loop_spec])
    then have "unat (bit_extract_norm v M) = drop_bit (?w - 8) (unat ?c) mod 256"
      by (simp only: unat_ucast8 unat_drop_bit_eq)
    with True c show ?thesis by (simp add: spec_norm_def Let_def)
  next
    case False
    with pos have "bit_extract_norm v M = ucast (replicate_loop ?c ?c ?w AND 0xFF)"
      using assms by (simp add: bit_extract_norm_def Let_def ctz_loop_spec width_loop_spec [unfolded ctz_loop_spec])
    moreover have "replicate_loop ?c ?c ?w = of_nat (spec_replicate (unat ?c) (unat ?c) ?w)"
      by (simp add: spec_replicate_word)
    ultimately have "unat (bit_extract_norm v M)
        = take_bit 8 (unat ((of_nat (spec_replicate (unat ?c) (unat ?c) ?w) :: 32 word)
                              AND mask 8))"
      by (simp add: unsigned_ucast_eq mask_eq_exp_minus_1)
    also have "\<dots> = take_bit 8 (spec_replicate (unat ?c) (unat ?c) ?w)"
      by (rule low8_of_word)
    finally show ?thesis using False c by (simp add: spec_norm_def Let_def take_bit_eq_mod)
  qed
qed

lemma spec_norm_five_bits:
  assumes "spec_width M = 5" and "drop_bit (spec_shift M) (v AND M) = 0x1F"
  shows "spec_norm v M = 0xFF"
proof -
  have "spec_replicate 0x1F 0x1F 5 = 0x3FF"
    by (simp add: spec_replicate.simps)
  with assms show ?thesis by (simp add: spec_norm_def Let_def)
qed

text \<open>
  Claim C6 says that for every pixel value \<open>v\<close> and every nonzero mask \<open>M\<close> the function
  \<open>bit_extract_norm\<close> returns the value of the specified algorithm, which for a width
  of 8 or more is \<open>c >> (width - 8)\<close>. The function returns a \<^verbatim>\<open>uint8_t\<close>; for the
  mask \<open>0x10FF\<close>, whose set bits are not contiguous, and \<open>v = 0xFFFF\<close> the width is 8,
  \<open>c >> (width - 8)\<close> is \<open>0x10FF\<close> and the function returns \<open>0xFF\<close>.
\<close>

theorem bit_extract_norm_truncates:
  "unat (bit_extract_norm 0xFFFF 0x10FF) = 255
   \<and> spec_norm (unat (0xFFFF :: 32 word)) (unat (0x10FF :: 32 word)) = 4351"
proof -
  have "unat (bit_extract_norm 0xFFFF 0x10FF) = 255"
    by (simp add: bit_extract_norm_def ctz_loop.simps width_loop.simps Let_def)
  moreover have "spec_norm 0xFFFF 0x10FF = 4351"
    by (simp add: spec_norm_def spec_width_def spec_shift_def upt_conv_Cons Let_def
                  bit_Suc_0_iff)
  ultimately show ?thesis by simp
qed

text \<open>
  Claim C6 as amended: for every pixel value \<open>v\<close> and every nonzero mask \<open>M\<close> the function
  returns the low 8 bits of the value of the specified algorithm, that is, of
  \<open>c >> (width - 8)\<close> when the width is 8 or more and of the replicated component
  otherwise; in particular a maximal 5-bit component \<open>0x1F\<close> maps to \<open>0xFF\<close>.
\<close>

theorem bit_extract_norm_low8:
  assumes "M \<noteq> 0"
  shows "unat (bit_extract_norm v M) = spec_norm (unat v) (unat M) mod 256
         \<and> (spec_width (unat M) = 5
              \<and> drop_bit (spec_shift (unat M)) (unat v AND unat M) = 0x1F
            \<longrightarrow> bit_extract_norm v M = 0xFF)"
proof -
  have m: "unat (bit_extract_norm v M) = spec_norm (unat v) (unat M) mod 256"
    using assms by (rule bit_extract_norm_mod)
  moreover have "bit_extract_norm v M = 0xFF"
    if "spec_width (unat M) = 5"
      and "drop_bit (spec_shift (unat M)) (unat v AND unat M) = 0x1F"
  proof -
    from that have "spec_norm (unat v) (unat M) = 0xFF" by (rule spec_norm_five_bits)
    with m have "unat (bit_extract_norm v M) = unat (0xFF :: byte)" by simp
    then show ?thesis by (simp only: word_unat_eq_iff)
  qed
  ultimately show ?thesis by blast
qed

text \<open>The amended claim C6 on the red mask \<open>0x7C00\<close> of the 5-5-5 layout.\<close>

theorem bit_extract_norm_low8_witness:
  "(0x7C00 :: 32 word) \<noteq> 0
   \<and> unat (bit_extract_norm 0x7FFF 0x7C00)
       = spec_norm (unat (0x7FFF :: 32 word)) (unat (0x7C00 :: 32 word)) mod 256
   \<and> spec_width (unat (0x7C00 :: 32 word)) = 5
   \<and> drop_bit (spec_shift (unat (0x7C00 :: 32 word)))
         (unat (0x7FFF :: 32 word) AND unat (0x7C00 :: 32 word)) = 0x1F
   \<and> bit_extract_norm 0x7FFF 0x7C00 = 0xFF"
proof -
  have n: "(0x7C00 :: 32 word) \<noteq> 0" by simp
  have w: "spec_width (unat (0x7C00 :: 32 word)) = 5"
    by (simp add: spec_width_def spec_shift_def upt_conv_Cons bit_Suc_0_iff)
  have c: "drop_bit (spec_shift (unat (0x7C00 :: 32 word)))
             (unat (0x7FFF :: 32 word) AND unat (0x7C00 :: 32 word)) = 0x1F"
    by (simp add: spec_shift_def upt_conv_Cons bit_Suc_0_iff)
  from bit_extract_norm_low8 [OF n, of "0x7FFF"] n w c show ?thesis by blast
qed

subsection \<open>C7: RLE8 with an absolute run of odd length\<close>

text \<open>
  Claim C7: for the RLE8 input of width 3 and height 1 with a palette of two entries and
  the stream \<open>00 03 00 01 00 00 01\<close>, decode succeeds, and the three output pixels are
  the palette entries 0, 1 and 0 in this order.
\<close>

theorem rle8_absolute_odd_run:
  "\<not> isl (parse (s4_input e0 e1))
   \<and> format (projr (parse (s4_input e0 e1))) = BGRA8
   \<and> palette (projr (parse (s4_input e0 e1))) = [e0, e1]
   \<and> pixels (projr (parse (s4_input e0 e1)))
       = entry_bytes e0 @ entry_bytes e1 @ entry_bytes e0"
  by (cases e0, cases e1)
     (simp add: s4_input_def entry_bytes_def header_defs rle_defs replicate_numeral)

subsection \<open>C8: the pixel region\<close>

lemma parse_after_header:
  assumes "parse_header p = Inr m" and "check_fields m = Inr ()"
    and "read_palette p m = Inr pal"
  shows "parse p = decode_pixels (drop (unat (file_offset_pixels m)) p)
                     (pix_size_of (length p) m) (init_image m pal)"
  using assms parse_header_offset [OF assms(1)] by (simp add: parse_def bindE_def)

lemma stream_dispatch:
  assumes "is_stream (compression (meta img))"
    and "bpp (meta img) \<in> {1, 2, 4, 8, 16, 24, 32}"
  shows "decode_pixels pix pix_size img = expose_embedded_stream pix pix_size img"
  using assms
  by (auto simp: decode_pixels_def Let_def is_stream_def is_bitfields_def BI_RGB_def
                 BI_RLE8_def BI_RLE4_def BI_BITFIELDS_def BI_ALPHABITFIELDS_def BI_PNG_def
                 BI_JPEG_def)

text \<open>
  The passthrough of BI_JPEG and BI_PNG does what claim C8 says: it copies the first
  \<open>image_size\<close> bytes after \<open>file_offset_pixels\<close> when \<open>image_size\<close> is nonzero and no
  greater than what remains, and all bytes after \<open>file_offset_pixels\<close> otherwise.
\<close>

lemma stream_copies_region:
  assumes "parse_header p = Inr m" and "check_fields m = Inr ()"
    and "read_palette p m = Inr pal"
    and "is_stream (compression m)" and "bpp m \<in> {1, 2, 4, 8, 16, 24, 32}"
  shows "\<not> isl (parse p) \<and> format (projr (parse p)) = RawBitfields
         \<and> pixels (projr (parse p))
             = (if image_size m \<noteq> 0
                   \<and> unat (image_size m) \<le> length p - unat (file_offset_pixels m)
                then take (unat (image_size m)) (drop (unat (file_offset_pixels m)) p)
                else drop (unat (file_offset_pixels m)) p)"
proof -
  let ?off = "unat (file_offset_pixels m)"
  let ?img = "init_image m pal"
  note ph = parse_after_header [OF assms(1-3)]
  have sd: "decode_pixels (drop ?off p) n ?img = expose_embedded_stream (drop ?off p) n ?img"
    for n
    using assms(4,5) by (intro stream_dispatch) (simp_all add: init_image_def)
  show ?thesis
  proof (cases "image_size m \<noteq> 0 \<and> unat (image_size m) \<le> length p - ?off")
    case True
    then have sz: "pix_size_of (length p) m = unat (image_size m)"
      by (simp add: pix_size_of_def Let_def)
    from True have "unat (image_size m) \<le> length (drop ?off p)" by simp
    with True ph sz sd [of "unat (image_size m)"] show ?thesis
      by (auto simp: expose_embedded_stream_def)
  next
    case False
    then have sz: "pix_size_of (length p) m = length p - ?off"
      by (auto simp: pix_size_of_def Let_def)
    with False ph sd [of "length p - ?off"] show ?thesis
      by (auto simp: expose_embedded_stream_def)
  qed
qed

text \<open>
  On \<open>png3_input\<close> three of the five bytes are the region; on \<open>png9_input\<close> the field
  \<open>image_size\<close> exceeds what remains and all five bytes are copied.
\<close>

lemma stream_copies_region_examples:
  "image_size (projr (parse_header png3_input)) = 3
   \<and> pixels (projr (parse png3_input)) = [1, 2, 3]
   \<and> image_size (projr (parse_header png9_input)) = 9
   \<and> pixels (projr (parse png9_input)) = [1, 2, 3, 4, 5]"
  by (simp add: png3_input_def png9_input_def header_defs packed_defs)

subsubsection \<open>The decoders when the stride does not wrap\<close>

text \<open>
  Two buffers that agree on their first \<open>sz\<close> bytes (\<open>take sz p = take sz q\<close>) give the
  same result to every read below \<open>sz\<close>.
\<close>

lemma rd_region:
  assumes "take sz p = take sz q" and "i < sz"
  shows "rd q i = rd p i"
proof -
  from assms(1) have "length (take sz p) = length (take sz q)" by simp
  with assms(2) have l: "i < length p \<longleftrightarrow> i < length q" by auto
  from assms have "take sz p ! i = take sz q ! i" by simp
  with assms(2) have "p ! i = q ! i" by simp
  with l show ?thesis by (simp add: rd_def)
qed

lemma le16_region:
  assumes "take sz p = take sz q" and "i + 1 < sz"
  shows "le16 q i = le16 p i"
  using assms by (simp add: le16_def rd_region [OF assms(1)])

lemma le32_region:
  assumes "take sz p = take sz q" and "i + 3 < sz"
  shows "le32 q i = le32 p i"
  using assms by (simp add: le32_def rd_region [OF assms(1)])

lemma memcpy_row_region:
  assumes "take sz p = take sz q" and "s + len \<le> sz"
  shows "memcpy_row dst d q s len = memcpy_row dst d p s len"
proof -
  from assms(1) have "length (take sz p) = length (take sz q)" by simp
  with assms(2) have l: "s + len \<le> length p \<longleftrightarrow> s + len \<le> length q" by auto
  have "take len (drop s x) = take len (drop s (take sz x))" for x :: "byte list"
    using assms(2) by (simp add: drop_take min_def)
  from this [of p] this [of q] assms(1)
  have "take len (drop s p) = take len (drop s q)" by simp
  with l show ?thesis by (simp add: memcpy_row_def)
qed

lemma for_loop_cong:
  assumes "\<And>j s. i \<le> j \<Longrightarrow> j < n \<Longrightarrow> f j s = g j s"
  shows "for_loop step i n f s0 = for_loop step i n g s0"
  using assms
proof (induction step i n f s0 rule: for_loop.induct)
  case (1 step i n f s)
  show ?case
  proof (cases "0 < step \<and> i < n")
    case False
    then show ?thesis
      by (auto simp: for_loop.simps [of step i n f s] for_loop.simps [of step i n g s])
  next
    case True
    then have b: "f i s = g i s" using "1.prems" by simp
    show ?thesis
    proof (cases "f i s")
      case (Inl e)
      with b have "g i s = Inl e" by simp
      with True Inl show ?thesis
        by (simp add: for_loop.simps [of step i n f s] for_loop.simps [of step i n g s])
    next
      case (Inr s1)
      have "for_loop step (i + step) n f s1 = for_loop step (i + step) n g s1"
        using "1.IH" [OF True Inr] "1.prems" by simp
      moreover from b Inr have "g i s = Inr s1" by simp
      ultimately show ?thesis using True Inr
        by (simp add: for_loop.simps [of step i n f s] for_loop.simps [of step i n g s])
    qed
  qed
qed

text \<open>
  When the byte count of a 24-bpp row, rounded up, fits 32 bits, \<open>decode_bgr24\<close> depends
  on the first \<open>pix_size\<close> bytes of the region only.
\<close>

lemma stride_covers_row:
  assumes "(unat w * unat b + 7) div 8 + 3 < 2 ^ 32"
  shows "(unat w * unat b + 7) div 8 \<le> unat (row_stride_aligned w b)"
  unfolding row_stride_exact [OF assms] by arith

lemma row_in_region:
  assumes "row < H" and "stride * H \<le> sz" and "len \<le> (stride :: nat)"
  shows "row * stride + len \<le> sz"
proof -
  from assms(1) have "Suc row \<le> H" by simp
  then have "Suc row * stride \<le> H * stride" by (rule mult_le_mono1)
  with assms(2,3) show ?thesis by (simp add: mult.commute)
qed

lemma decode_bgr24_region:
  assumes eq: "take sz p = take sz q"
    and aw: "abs_width (meta img) = Inr Ww"
    and fits: "unat Ww * 3 + 3 < 2 ^ 32"
  shows "decode_bgr24 q sz img = decode_bgr24 p sz img"
proof -
  let ?W = "unat Ww" and ?H = "unat (abs_height (meta img))"
  let ?stride = "unat (row_stride_aligned Ww 24)"
  have "(?W * unat (24 :: 16 word) + 7) div 8 = ?W * 3" by simp
  with fits stride_covers_row [of Ww 24] have len: "?W * 3 \<le> ?stride" by simp
  show ?thesis
  proof (cases "sz < ?stride * ?H")
    case True
    with aw show ?thesis by (simp add: decode_bgr24_def Let_def bindE_def)
  next
    case False
    then have nd: "?stride * ?H \<le> sz" by simp
    have "for_loop 1 0 ?H
            (\<lambda>row px. memcpy_row px
               ((if top_down (meta img) then row else ?H - 1 - row) * ?W * 3)
               q (row * ?stride) (?W * 3)) s0
          = for_loop 1 0 ?H
            (\<lambda>row px. memcpy_row px
               ((if top_down (meta img) then row else ?H - 1 - row) * ?W * 3)
               p (row * ?stride) (?W * 3)) s0" for s0
      by (rule for_loop_cong)
         (rule memcpy_row_region [OF eq], rule row_in_region [OF _ nd len])
    with aw False show ?thesis by (simp add: decode_bgr24_def Let_def bindE_def)
  qed
qed

text \<open>
  The RLE decoders read below \<open>pix_size\<close> only: every read follows a comparison of the
  index with \<open>pix_size\<close>.
\<close>

lemma rle8_abs_region:
  assumes "take sz p = take sz q" and "cur_i st + (n - k) \<le> sz"
  shows "rle8_abs q pal W H td n k st = rle8_abs p pal W H td n k st"
  using assms
proof (induction p pal W H td n k st rule: rle8_abs.induct)
  case (1 p pal W H td n k st)
  note eq = "1.prems"(1) and bound = "1.prems"(2)
  note unf = rle8_abs.simps [of p pal W H td n k st] rle8_abs.simps [of q pal W H td n k st]
  show ?case
  proof (cases "k < n")
    case False
    then show ?thesis by (simp add: unf)
  next
    case True
    with bound have "cur_i st < sz" by arith
    note r = rd_region [OF eq this]
    show ?thesis
    proof (cases "rd p (cur_i st)")
      case (Inl e)
      with True r show ?thesis by (simp add: unf)
    next
      case (Inr v)
      show ?thesis
      proof (cases "rle_put pal W H (cur_x st) (dest_row td H (cur_y st)) v
                      (st\<lparr>cur_i := cur_i st + 1\<rparr>)")
        case (Inl e)
        with True r Inr show ?thesis by (simp add: unf)
      next
        case put: (Inr st1)
        from rle_put_frame [OF put] have i1: "cur_i st1 = cur_i st + 1" by simp
        show ?thesis
        proof (cases "W \<le> u32 (cur_x st + 1)")
          case w: True
          show ?thesis
          proof (cases "H \<le> cur_y (adv_y st1)")
            case True
            with \<open>k < n\<close> r Inr put w show ?thesis by (simp add: unf)
          next
            case False
            from i1 True bound have "cur_i (adv_y st1) + (n - (k + 1)) \<le> sz"
              by (simp add: adv_y_def)
            from "1.IH"(1) [OF True Inr put w False eq this]
            show ?thesis using True r Inr put w False by (simp add: unf)
          qed
        next
          case w: False
          from i1 True bound
          have "cur_i (st1\<lparr>cur_x := u32 (cur_x st + 1)\<rparr>) + (n - (k + 1)) \<le> sz"
            by simp
          from "1.IH"(2) [OF True Inr put w eq this]
          show ?thesis using True r Inr put w by (simp add: unf)
        qed
      qed
    qed
  qed
qed

lemma rle4_abs_region:
  assumes "take sz p = take sz q" and "cur_i st + (n + 1) div 2 \<le> sz"
  shows "rle4_abs q pal W H td n k st = rle4_abs p pal W H td n k st"
  using assms
proof (induction p pal W H td n k st rule: rle4_abs.induct)
  case (1 p pal W H td n k st)
  note eq = "1.prems"(1) and bound = "1.prems"(2)
  note unf = rle4_abs.simps [of p pal W H td n k st] rle4_abs.simps [of q pal W H td n k st]
  show ?case
  proof (cases "k < n")
    case False
    then show ?thesis by (simp add: unf)
  next
    case True
    then have "k div 2 < (n + 1) div 2" by arith
    with bound have "cur_i st + k div 2 < sz" by arith
    note r = rd_region [OF eq this]
    show ?thesis
    proof (cases "rd p (cur_i st + k div 2)")
      case (Inl e)
      with True r show ?thesis by (simp add: unf)
    next
      case (Inr v)
      let ?idx = "if odd k then v AND 0xF else drop_bit 4 v AND 0xF"
      show ?thesis
      proof (cases "rle_put pal W H (cur_x st) (dest_row td H (cur_y st)) ?idx st")
        case (Inl e)
        with True r Inr show ?thesis by (simp add: unf)
      next
        case put: (Inr st1)
        from rle_put_frame [OF put] have i1: "cur_i st1 = cur_i st" by simp
        show ?thesis
        proof (cases "W \<le> u32 (cur_x st + 1)")
          case w: True
          show ?thesis
          proof (cases "H \<le> cur_y (adv_y st1)")
            case True
            with \<open>k < n\<close> r Inr put w show ?thesis by (simp add: unf)
          next
            case False
            from i1 bound have "cur_i (adv_y st1) + (n + 1) div 2 \<le> sz"
              by (simp add: adv_y_def)
            from "1.IH"(1) [OF True Inr put w False eq this]
            show ?thesis using True r Inr put w False by (simp add: unf)
          qed
        next
          case w: False
          from i1 bound
          have "cur_i (st1\<lparr>cur_x := u32 (cur_x st + 1)\<rparr>) + (n + 1) div 2 \<le> sz"
            by simp
          from "1.IH"(2) [OF True Inr put w eq this]
          show ?thesis using True r Inr put w by (simp add: unf)
        qed
      qed
    qed
  qed
qed

lemma rle8_step_region:
  assumes eq: "take sz p = take sz q"
  shows "rle8_step q sz pal W H td st = rle8_step p sz pal W H td st"
proof -
  have r: "rd q i = rd p i" if "i < sz" for i
    using rd_region [OF eq that] .
  have a: "rle8_abs q pal W H td n 0 s = rle8_abs p pal W H td n 0 s"
    if "cur_i s + n \<le> sz" for n s
    using rle8_abs_region [OF eq, of s n 0] that by simp
  show ?thesis
    unfolding rle8_step_def Let_def
    by (simp add: r a not_less not_le cong: if_cong bindE_cong)
qed

lemma rle4_step_region:
  assumes eq: "take sz p = take sz q" and i: "cur_i st < sz"
  shows "rle4_step q sz pal W H td st = rle4_step p sz pal W H td st"
proof -
  have r: "rd q i = rd p i" if "i < sz" for i
    using rd_region [OF eq that] .
  have a: "rle4_abs q pal W H td n 0 s = rle4_abs p pal W H td n 0 s"
    if "cur_i s + (n + 1) div 2 \<le> sz" for n s
    using rle4_abs_region [OF eq that] .
  show ?thesis
    unfolding rle4_step_def Let_def
    using i by (simp add: r a not_less not_le cong: if_cong bindE_cong)
qed

lemma rle8_loop_region:
  assumes "take sz p = take sz q"
  shows "rle8_loop q sz pal W H td st = rle8_loop p sz pal W H td st"
  using assms
proof (induction p sz pal W H td st rule: rle8_loop.induct)
  case (1 p sz pal W H td st)
  note eq = "1.prems"
  note unf = rle8_loop.simps [of p sz pal W H td st] rle8_loop.simps [of q sz pal W H td st]
  note s = rle8_step_region [OF eq, of pal W H td st]
  show ?case
  proof (cases "cur_i st < sz \<and> cur_y st < H")
    case False
    then show ?thesis by (auto simp: unf)
  next
    case True
    show ?thesis
    proof (cases "rle8_step p sz pal W H td st")
      case (Inl e)
      with True s show ?thesis by (simp add: unf)
    next
      case (Inr ex)
      show ?thesis
      proof (cases ex)
        case (Break st1)
        with True s Inr show ?thesis by (simp add: unf)
      next
        case (Continue st1)
        from "1.IH" [OF True Inr Continue eq]
        show ?thesis using True s Inr Continue by (simp add: unf)
      qed
    qed
  qed
qed

lemma rle4_loop_region:
  assumes "take sz p = take sz q"
  shows "rle4_loop q sz pal W H td st = rle4_loop p sz pal W H td st"
  using assms
proof (induction p sz pal W H td st rule: rle4_loop.induct)
  case (1 p sz pal W H td st)
  note eq = "1.prems"
  note unf = rle4_loop.simps [of p sz pal W H td st] rle4_loop.simps [of q sz pal W H td st]
  show ?case
  proof (cases "cur_i st < sz \<and> cur_y st < H")
    case False
    then show ?thesis by (auto simp: unf)
  next
    case True
    then have s: "rle4_step q sz pal W H td st = rle4_step p sz pal W H td st"
      by (intro rle4_step_region [OF eq]) simp
    show ?thesis
    proof (cases "rle4_step p sz pal W H td st")
      case (Inl e)
      with True s show ?thesis by (simp add: unf)
    next
      case (Inr ex)
      show ?thesis
      proof (cases ex)
        case (Break st1)
        with True s Inr show ?thesis by (simp add: unf)
      next
        case (Continue st1)
        from "1.IH" [OF True Inr Continue eq]
        show ?thesis using True s Inr Continue by (simp add: unf)
      qed
    qed
  qed
qed

lemma decode_rle8_region:
  assumes "take sz p = take sz q"
  shows "decode_rle8 q sz img = decode_rle8 p sz img"
  by (simp add: decode_rle8_def rle8_final_def rle8_loop_region [OF assms])

lemma decode_rle4_region:
  assumes "take sz p = take sz q"
  shows "decode_rle4 q sz img = decode_rle4 p sz img"
  by (simp add: decode_rle4_def rle4_final_def rle4_loop_region [OF assms])

lemma expose_embedded_stream_region:
  assumes "take sz p = take sz q"
  shows "expose_embedded_stream q sz img = expose_embedded_stream p sz img"
proof -
  from assms have "length (take sz p) = length (take sz q)" by simp
  then have "sz \<le> length p \<longleftrightarrow> sz \<le> length q" by auto
  with assms show ?thesis by (simp add: expose_embedded_stream_def)
qed

text \<open>
  The indexed decoder: a row of \<open>W\<close> pixels of at most 8 bits is read from the first
  \<open>(W * bpp + 7) div 8\<close> bytes of the row, and for these depths the stride cannot wrap.
\<close>

lemma indexed_row_region:
  assumes eq: "take sz p = take sz q"
    and row: "src + (W * unat bits_pp + 7) div 8 \<le> sz"
  shows "indexed_row q pal bits_pp W src y px = indexed_row p pal bits_pp W src y px"
proof -
  have r: "rd q i = rd p i" if "i < sz" for i
    using rd_region [OF eq that] .
  consider "bits_pp = 8" | "bits_pp = 4" | "bits_pp = 2" | "bits_pp = 1"
    | "bits_pp \<noteq> 8 \<and> bits_pp \<noteq> 4 \<and> bits_pp \<noteq> 2 \<and> bits_pp \<noteq> 1"
    by blast
  then show ?thesis
  proof cases
    case 1
    have "rd q (src + x) = rd p (src + x)" if "x < W" for x
      using that row 1 by (intro r) simp
    with 1 show ?thesis
      unfolding indexed_row_def by (simp cong: for_loop_cong)
  next
    case 2
    from row 2 have "src + (W * 4 + 7) div 8 \<le> sz" by simp
    then have "rd q (src + x div 2) = rd p (src + x div 2)" if "x < W" for x
      using that by (intro r) arith
    with 2 show ?thesis
      unfolding indexed_row_def by (simp cong: for_loop_cong)
  next
    case 3
    from row 3 have "src + (W * 2 + 7) div 8 \<le> sz" by simp
    then have "rd q (src + x div 4) = rd p (src + x div 4)" if "x < W" for x
      using that by (intro r) arith
    with 3 show ?thesis
      unfolding indexed_row_def by (simp cong: for_loop_cong)
  next
    case 4
    from row 4 have "src + (W * 1 + 7) div 8 \<le> sz" by simp
    then have "rd q (src + x div 8) = rd p (src + x div 8)" if "x < W" for x
      using that by (intro r) arith
    with 4 show ?thesis
      unfolding indexed_row_def by (simp cong: for_loop_cong)
  next
    case 5
    then show ?thesis by (simp add: indexed_row_def)
  qed
qed

lemma decode_indexed_uncompressed_region:
  assumes eq: "take sz p = take sz q"
  shows "decode_indexed_uncompressed q sz img = decode_indexed_uncompressed p sz img"
proof (cases "abs_width (meta img)")
  case (Inl e)
  then show ?thesis by (simp add: decode_indexed_uncompressed_def Let_def bindE_def)
next
  case (Inr Ww)
  let ?b = "bpp (meta img)"
  let ?W = "unat Ww" and ?H = "unat (abs_height (meta img))"
  let ?stride = "unat (row_stride_aligned Ww ?b)"
  show ?thesis
  proof (cases "sz < ?stride * ?H")
    case True
    with Inr show ?thesis by (simp add: decode_indexed_uncompressed_def Let_def bindE_def)
  next
    case False
    then have nd: "?stride * ?H \<le> sz" by simp
    have rows: "indexed_row q pal ?b ?W (row * ?stride) y px
                = indexed_row p pal ?b ?W (row * ?stride) y px" if "row < ?H" for row y px pal
    proof (cases "?b = 8 \<or> ?b = 4 \<or> ?b = 2 \<or> ?b = 1")
      case False
      then show ?thesis by (simp add: indexed_row_def)
    next
      case True
      then have "unat ?b \<le> 8" by auto
      then have "?W * unat ?b \<le> ?W * 8" by simp
      then have "(?W * unat ?b + 7) div 8 \<le> ?W" by arith
      moreover from abs_width_bound [OF Inr] have "?W + 3 < 2 ^ 32" by simp
      ultimately have "(?W * unat ?b + 7) div 8 + 3 < 2 ^ 32" by simp
      from stride_covers_row [OF this] have "(?W * unat ?b + 7) div 8 \<le> ?stride" .
      from row_in_region [OF that nd this] show ?thesis
        by (rule indexed_row_region [OF eq])
    qed
    have "for_loop 1 0 ?H
            (\<lambda>row. indexed_row q (palette img) ?b ?W (row * ?stride)
               (if top_down (meta img) then row else ?H - 1 - row)) s0
          = for_loop 1 0 ?H
            (\<lambda>row. indexed_row p (palette img) ?b ?W (row * ?stride)
               (if top_down (meta img) then row else ?H - 1 - row)) s0" for s0
      by (rule for_loop_cong) (rule rows)
    with Inr False show ?thesis
      by (simp add: decode_indexed_uncompressed_def Let_def bindE_def)
  qed
qed

text \<open>
  The bitfield decoder, when the byte count of a row, rounded up, fits 32 bits.
\<close>

lemma bitfields_pixel_region:
  assumes eq: "take sz p = take sz q"
    and bp: "bytes_per_pixel = 2 \<or> bytes_per_pixel = 4"
    and x: "x < W" and fits: "W * bytes_per_pixel < 2 ^ 32"
    and row: "src + W * bytes_per_pixel \<le> sz"
  shows "bitfields_pixel q mk bytes_per_pixel W src y x px
         = bitfields_pixel p mk bytes_per_pixel W src y x px"
proof -
  from x have "Suc x * bytes_per_pixel \<le> W * bytes_per_pixel" by (intro mult_le_mono1) simp
  then have le: "x * bytes_per_pixel + bytes_per_pixel \<le> W * bytes_per_pixel" by simp
  from bp show ?thesis
  proof
    assume b: "bytes_per_pixel = 2"
    with le fits have "u32 (x * 2) = x * 2" by (simp add: u32_def)
    moreover from b le row have "src + x * 2 + 1 < sz" by simp
    ultimately show ?thesis
      using b by (simp add: bitfields_pixel_def le16_region [OF eq])
  next
    assume b: "bytes_per_pixel = 4"
    with le fits have "u32 (x * 4) = x * 4" by (simp add: u32_def)
    moreover from b le row have "src + x * 4 + 3 < sz" by simp
    ultimately show ?thesis
      using b by (simp add: bitfields_pixel_def le32_region [OF eq])
  qed
qed

lemma decode_bitfields_region:
  assumes eq: "take sz p = take sz q"
    and aw: "abs_width (meta img) = Inr Ww"
    and bp: "bytes_per_pixel = 2 \<or> bytes_per_pixel = 4"
    and fits: "unat Ww * bytes_per_pixel + 3 < 2 ^ 32"
  shows "decode_bitfields q sz img bytes_per_pixel = decode_bitfields p sz img bytes_per_pixel"
proof -
  let ?W = "unat Ww" and ?H = "unat (abs_height (meta img))"
  let ?b = "of_nat (bytes_per_pixel * 8) :: 16 word"
  let ?stride = "unat (row_stride_aligned Ww ?b)"
  from bp have "unat ?b = bytes_per_pixel * 8" by auto
  then have "(?W * unat ?b + 7) div 8 = ?W * bytes_per_pixel" by simp
  with fits stride_covers_row [of Ww ?b] have len: "?W * bytes_per_pixel \<le> ?stride" by simp
  from fits have w: "?W * bytes_per_pixel < 2 ^ 32" by simp
  show ?thesis
  proof (cases "sz < ?stride * ?H")
    case True
    with aw show ?thesis by (simp add: decode_bitfields_def Let_def bindE_def)
  next
    case False
    then have nd: "?stride * ?H \<le> sz" by simp
    have raw: "for_loop 1 0 ?H
            (\<lambda>row px. memcpy_row px (d row) q (row * ?stride) (?W * bytes_per_pixel)) s0
          = for_loop 1 0 ?H
            (\<lambda>row px. memcpy_row px (d row) p (row * ?stride) (?W * bytes_per_pixel)) s0"
      for s0 d
      by (rule for_loop_cong)
         (rule memcpy_row_region [OF eq], rule row_in_region [OF _ nd len])
    have px: "for_loop 1 0 ?W (bitfields_pixel q mk bytes_per_pixel ?W (row * ?stride) y) s
              = for_loop 1 0 ?W (bitfields_pixel p mk bytes_per_pixel ?W (row * ?stride) y) s"
      if "row < ?H" for row mk y s
      by (rule for_loop_cong)
         (rule bitfields_pixel_region [OF eq bp _ w row_in_region [OF that nd len]])
    have cooked: "for_loop 1 0 ?H
            (\<lambda>row. for_loop 1 0 ?W
               (bitfields_pixel q mk bytes_per_pixel ?W (row * ?stride) (y row))) s0
          = for_loop 1 0 ?H
            (\<lambda>row. for_loop 1 0 ?W
               (bitfields_pixel p mk bytes_per_pixel ?W (row * ?stride) (y row))) s0"
      for s0 mk y
      by (rule for_loop_cong) (rule px)
    show ?thesis
      unfolding decode_bitfields_def Let_def aw bindE_def sum.case raw cooked
      by (rule refl)
  qed
qed

text \<open>
  All decoding paths together: when the byte count of a row, rounded up, fits 32 bits,
  the result of the \<^verbatim>\<open>switch\<close> of lines 413-474 depends on the first \<open>pix_size\<close> bytes
  after \<open>file_offset_pixels\<close> only.
\<close>

lemma decode_pixels_region:
  assumes eq: "take sz p = take sz q"
    and aw: "abs_width (meta img) = Inr Ww"
    and fits: "unat Ww * (unat (bpp (meta img)) div 8) + 3 < 2 ^ 32"
  shows "decode_pixels q sz img = decode_pixels p sz img"
proof -
  let ?m = "meta img"
  note ix = decode_indexed_uncompressed_region [OF eq]
    and r8 = decode_rle8_region [OF eq] and r4 = decode_rle4_region [OF eq]
    and st = expose_embedded_stream_region [OF eq]
  have aw': "abs_width (meta (img\<lparr>meta := ?m\<lparr>has_masks := True, masks := mk\<rparr>\<rparr>)) = Inr Ww"
    for mk
  proof -
    have "abs_width (meta (img\<lparr>meta := ?m\<lparr>has_masks := True, masks := mk\<rparr>\<rparr>))
          = abs_width ?m"
      by (simp add: abs_width_def)
    with aw show ?thesis by simp
  qed
  consider "bpp ?m = 16" | "bpp ?m = 24" | "bpp ?m = 32"
    | "bpp ?m \<noteq> 16 \<and> bpp ?m \<noteq> 24 \<and> bpp ?m \<noteq> 32"
    by blast
  then show ?thesis
  proof cases
    case 1
    with fits have f: "unat Ww * 2 + 3 < 2 ^ 32" by simp
    have "decode_bitfields q sz im 2 = decode_bitfields p sz im 2"
      if "abs_width (meta im) = Inr Ww" for im
      using decode_bitfields_region [OF eq that _ f] by simp
    from this [OF aw] this [OF aw'] 1 show ?thesis
      by (simp add: decode_pixels_def Let_def st)
  next
    case 2
    with fits have f: "unat Ww * 3 + 3 < 2 ^ 32" by simp
    from decode_bgr24_region [OF eq aw f] 2 show ?thesis
      by (simp add: decode_pixels_def Let_def st)
  next
    case 3
    with fits have f: "unat Ww * 4 + 3 < 2 ^ 32" by simp
    have "decode_bitfields q sz im 4 = decode_bitfields p sz im 4"
      if "abs_width (meta im) = Inr Ww" for im
      using decode_bitfields_region [OF eq that _ f] by simp
    from this [OF aw] this [OF aw'] 3 show ?thesis
      by (simp add: decode_pixels_def Let_def st)
  next
    case 4
    then show ?thesis
      by (simp add: decode_pixels_def Let_def ix r8 r4 st)
  qed
qed

text \<open>
  So \<^verbatim>\<open>parse\<close> decodes from the header and the region alone: the bytes behind the first
  \<open>pix_size\<close> bytes after \<open>file_offset_pixels\<close> can be cut off.
\<close>

lemma parse_uses_region_only:
  assumes "parse_header p = Inr m" and "check_fields m = Inr ()"
    and "read_palette p m = Inr pal"
    and aw: "abs_width m = Inr Ww"
    and fits: "unat Ww * (unat (bpp m) div 8) + 3 < 2 ^ 32"
  shows "parse p = decode_pixels
                     (take (pix_size_of (length p) m) (drop (unat (file_offset_pixels m)) p))
                     (pix_size_of (length p) m) (init_image m pal)"
proof -
  let ?sz = "pix_size_of (length p) m" and ?off = "unat (file_offset_pixels m)"
  have "take ?sz (drop ?off p) = take ?sz (take ?sz (drop ?off p))" by simp
  from decode_pixels_region [OF this, of "init_image m pal" Ww] aw fits
  show ?thesis
    unfolding parse_after_header [OF assms(1-3)] by (simp add: init_image_def)
qed

text \<open>
  On \<open>png3_input\<close> and on the 24-bpp file \<open>s1_input\<close> with a byte appended, the result is
  that of the file without what follows the region.
\<close>

lemma parse_uses_region_only_examples:
  "parse png3_input = parse (take 57 png3_input)
   \<and> pixels (projr (parse png3_input)) = [1, 2, 3]
   \<and> image_size (projr (parse_header (s1_input @ [0x55]))) = 16
   \<and> parse (s1_input @ [0x55]) = parse s1_input"
  by (simp add: png3_input_def s1_input_def header_defs packed_defs replicate_numeral)

subsubsection \<open>The packed decoders when the stride wraps\<close>

text \<open>
  The packed decoders compare the region size with \<open>stride * H\<close> only (lines 755-759,
  808-812) and then read \<open>W\<close> pixels from each row. After the header
  \<open>region24_header\<close> the stride of one row of \<open>2^32 + 2\<close> bytes is cut to 32 bits (line
  485) and is 4, so a region of four bytes passes the comparison, and \<open>memcpy\<close> (line
  767) copies the whole row.
\<close>

lemma region24_header_fields:
  "\<not> isl (parse_header (region24_header @ t))
   \<and> image_size (projr (parse_header (region24_header @ t))) = 4
   \<and> file_offset_pixels (projr (parse_header (region24_header @ t))) = 54
   \<and> width (projr (parse_header (region24_header @ t))) = 0x55555556
   \<and> height (projr (parse_header (region24_header @ t))) = 1
   \<and> bpp (projr (parse_header (region24_header @ t))) = 24
   \<and> compression (projr (parse_header (region24_header @ t))) = BI_RGB"
  by (simp add: region24_header_def header_defs)

lemma region24_stride: "row_stride_aligned 0x55555556 24 = 4"
  by (simp add: row_stride_aligned_def)

lemma region24_copies_all:
  assumes "length t = 4294967298"
  shows "\<not> isl (parse (region24_header @ t))
         \<and> format (projr (parse (region24_header @ t))) = BGR8
         \<and> pixels (projr (parse (region24_header @ t))) = t"
  using assms by (simp add: region24_header_def header_defs packed_defs)

text \<open>
  Claim C8 says that, when \<open>image_size\<close> is nonzero and no greater than the number of
  bytes after \<open>file_offset_pixels\<close>, every decoding path treats only the first
  \<open>image_size\<close> bytes after \<open>file_offset_pixels\<close> as the pixel region. By
  \<open>parse_uses_region_only\<close> that is so on every path as long as the stride does not
  wrap. The file \<open>region24_input\<close> has \<open>image_size = 4\<close> and \<open>2^32 + 2\<close> bytes after
  offset 54, and \<open>decode_bgr24\<close> returns all of them as pixels: the byte 9 at index
  \<open>2^32 + 1\<close> of the output lies \<open>2^32 - 3\<close> bytes behind the region. On
  \<open>region24_short_input\<close>, the same file cut behind the region, the same copy reads
  behind the buffer.
\<close>

theorem bgr24_reads_past_image_size:
  "image_size (projr (parse_header region24_input)) = 4
   \<and> unat (file_offset_pixels (projr (parse_header region24_input))) = 54
   \<and> length region24_input - 54 = 4294967298
   \<and> \<not> isl (parse region24_input)
   \<and> format (projr (parse region24_input)) = BGR8
   \<and> pixels (projr (parse region24_input)) = [1, 2, 3, 4] @ replicate 4294967293 0 @ [9]
   \<and> pixels (projr (parse region24_input)) ! 4294967297 = 9
   \<and> region24_short_input = take (54 + 4) region24_input
   \<and> parse region24_short_input = Inl OutOfBounds"
proof -
  let ?t = "[1, 2, 3, 4] @ replicate 4294967293 0 @ [9 :: byte]"
  have len: "length ?t = 4294967298" by simp
  have inp: "region24_input = region24_header @ ?t"
    by (simp add: region24_input_def)
  have hl: "length region24_header = 54" by (simp add: region24_header_def)
  have last: "?t ! 4294967297 = 9"
    by (simp add: nth_append)
  have short: "parse region24_short_input = Inl OutOfBounds"
    by (simp add: region24_short_input_def region24_header_def header_defs packed_defs)
  have cut: "region24_short_input = take (54 + 4) region24_input"
    by (simp add: region24_short_input_def region24_input_def region24_header_def)
  from region24_header_fields [of ?t] region24_copies_all [OF len] len hl last short cut
  show ?thesis unfolding inp by simp
qed

subsection \<open>C9: the output of the run-length decoders starts as zeros\<close>

text \<open>
  The invariant of the two loops, for an output vector of \<open>n\<close> bytes: the vector keeps
  its length, and a byte whose pixel index \<open>j div 4\<close> is not in the log of the stores
  is zero.
\<close>

definition rle_inv :: "nat \<Rightarrow> rle_state \<Rightarrow> bool" where
  "rle_inv n st \<longleftrightarrow>
     length (out_px st) = n
     \<and> (\<forall>j < n. j div 4 \<notin> set (written st) \<longrightarrow> out_px st ! j = 0)"

definition exit_state :: "'a loop_exit \<Rightarrow> 'a" where
  "exit_state r = (case r of Continue s \<Rightarrow> s | Break s \<Rightarrow> s)"

lemma rle_inv_init: "rle_inv (W * H * 4) (rle_init W H)"
  by (simp add: rle_inv_def rle_init_def)

lemma rle_inv_cursor [simp]:
  "rle_inv n (st\<lparr>cur_i := i\<rparr>) = rle_inv n st"
  "rle_inv n (st\<lparr>cur_x := x\<rparr>) = rle_inv n st"
  "rle_inv n (st\<lparr>cur_y := y\<rparr>) = rle_inv n st"
  "rle_inv n (adv_y st) = rle_inv n st"
  "rle_inv n (rle8_delta W H dx dy st) = rle_inv n st"
  "rle_inv n (rle4_delta dx dy st) = rle_inv n st"
  by (simp_all add: rle_inv_def adv_y_def rle8_delta_def rle4_delta_def Let_def)

lemma rle_put_inv:
  assumes "rle_inv n st" and "rle_put pal W H x y idx st = Inr st'"
  shows "rle_inv n st'"
proof (cases "W \<le> x \<or> H \<le> y")
  case True
  with assms show ?thesis by (simp add: rle_put_def)
next
  case False
  let ?p = "y * W + x"
  from False assms(2) have
    "bindE (pal_lookup pal idx) (\<lambda>pe.
       bindE (store4 (out_px st) (?p * 4) (pe_b pe) (pe_g pe) (pe_r pe) (pe_a pe)) (\<lambda>px.
         Inr (st\<lparr>out_px := px, written := ?p # written st\<rparr>))) = Inr st'"
    by (simp only: rle_put_def if_False)
  from bindE_Inr [OF this] obtain pe :: PaletteEntry where
    "bindE (store4 (out_px st) (?p * 4) (pe_b pe) (pe_g pe) (pe_r pe) (pe_a pe)) (\<lambda>px.
       Inr (st\<lparr>out_px := px, written := ?p # written st\<rparr>)) = Inr st'"
    by blast
  from bindE_Inr [OF this] obtain px' where
    s4: "store4 (out_px st) (?p * 4) (pe_b pe) (pe_g pe) (pe_r pe) (pe_a pe) = Inr px'"
    and st': "st' = st\<lparr>out_px := px', written := ?p # written st\<rparr>"
    by blast
  from s4 have "px' = (out_px st)[?p * 4 := pe_b pe, ?p * 4 + 1 := pe_g pe,
           ?p * 4 + 2 := pe_r pe, ?p * 4 + 3 := pe_a pe]"
    by (simp add: store4_def split: if_splits)
  with st' have
    px: "out_px st' = (out_px st)[?p * 4 := pe_b pe, ?p * 4 + 1 := pe_g pe,
           ?p * 4 + 2 := pe_r pe, ?p * 4 + 3 := pe_a pe]"
    and wr: "written st' = ?p # written st"
    by simp_all
  show ?thesis
    unfolding rle_inv_def
  proof (intro conjI allI impI)
    show "length (out_px st') = n" using assms(1) px by (simp add: rle_inv_def)
  next
    fix j assume j: "j < n" and nw: "j div 4 \<notin> set (written st')"
    from nw wr have ne: "j div 4 \<noteq> ?p" and old: "j div 4 \<notin> set (written st)" by auto
    from ne have "j \<noteq> ?p * 4" "j \<noteq> ?p * 4 + 1" "j \<noteq> ?p * 4 + 2" "j \<noteq> ?p * 4 + 3"
      by auto
    then have "out_px st' ! j = out_px st ! j" by (simp add: px)
    with assms(1) j old show "out_px st' ! j = 0" by (simp add: rle_inv_def)
  qed
qed

lemma rle8_run_keeps:
  assumes "rle_inv n st" and "rle8_run pal W H td val count k st = Inr st'"
  shows "rle_inv n st'"
  by (rule rle8_run_inv [where P = "rle_inv n", OF _ _ _ assms])
     (auto intro: rle_put_inv)

lemma rle8_abs_keeps:
  assumes "rle_inv n st" and "rle8_abs pix pal W H td m k st = Inr st'"
  shows "rle_inv n st'"
  by (rule rle8_abs_inv [where P = "rle_inv n", OF _ _ _ _ assms])
     (auto intro: rle_put_inv)

lemma rle4_run_keeps:
  assumes "rle_inv n st" and "rle4_run pal W H td hi lo count k st = Inr st'"
  shows "rle_inv n st'"
  by (rule rle4_run_inv [where P = "rle_inv n", OF _ _ _ assms])
     (auto intro: rle_put_inv)

lemma rle4_abs_keeps:
  assumes "rle_inv n st" and "rle4_abs pix pal W H td m k st = Inr st'"
  shows "rle_inv n st'"
  by (rule rle4_abs_inv [where P = "rle_inv n", OF _ _ _ assms])
     (auto intro: rle_put_inv)

lemma rle8_step_keeps:
  assumes "rle_inv n st" and "rle8_step pix pix_size pal W H td st = Inr r"
  shows "rle_inv n (exit_state r)"
  using assms
  by (auto simp: rle8_step_def bindE_def Let_def exit_state_def
           split: if_splits sum.splits
           dest: rle8_run_keeps [rotated] rle8_abs_keeps [rotated])

lemma rle4_step_keeps:
  assumes "rle_inv n st" and "rle4_step pix pix_size pal W H td st = Inr r"
  shows "rle_inv n (exit_state r)"
  using assms
  by (auto simp: rle4_step_def bindE_def Let_def exit_state_def
           split: if_splits sum.splits
           dest: rle4_run_keeps [rotated] rle4_abs_keeps [rotated])

lemma rle8_loop_keeps:
  assumes "rle_inv n st" and "rle8_loop pix pix_size pal W H td st = Inr st'"
  shows "rle_inv n st'"
  using assms
proof (induction pix pix_size pal W H td st rule: rle8_loop.induct)
  case (1 pix pix_size pal W H td st)
  note unf = rle8_loop.simps [of pix pix_size pal W H td st]
  show ?case
  proof (cases "cur_i st < pix_size \<and> cur_y st < H")
    case False
    with "1.prems" show ?thesis by (simp add: unf)
  next
    case True
    with "1.prems"(2) obtain r where r: "rle8_step pix pix_size pal W H td st = Inr r"
      by (auto simp: unf split: sum.splits)
    from rle8_step_keeps [OF "1.prems"(1) r] have k: "rle_inv n (exit_state r)" .
    show ?thesis
    proof (cases r)
      case (Break s)
      with "1.prems"(2) True r k show ?thesis by (simp add: unf exit_state_def)
    next
      case (Continue s)
      with "1.prems"(2) True r
      have "rle8_loop pix pix_size pal W H td s = Inr st'" by (simp add: unf)
      moreover from k Continue have "rle_inv n s" by (simp add: exit_state_def)
      ultimately show ?thesis using "1.IH" [OF True r [unfolded Continue]] by blast
    qed
  qed
qed

lemma rle4_loop_keeps:
  assumes "rle_inv n st" and "rle4_loop pix pix_size pal W H td st = Inr st'"
  shows "rle_inv n st'"
  using assms
proof (induction pix pix_size pal W H td st rule: rle4_loop.induct)
  case (1 pix pix_size pal W H td st)
  note unf = rle4_loop.simps [of pix pix_size pal W H td st]
  show ?case
  proof (cases "cur_i st < pix_size \<and> cur_y st < H")
    case False
    with "1.prems" show ?thesis by (simp add: unf)
  next
    case True
    with "1.prems"(2) obtain r where r: "rle4_step pix pix_size pal W H td st = Inr r"
      by (auto simp: unf split: sum.splits)
    from rle4_step_keeps [OF "1.prems"(1) r] have k: "rle_inv n (exit_state r)" .
    show ?thesis
    proof (cases r)
      case (Break s)
      with "1.prems"(2) True r k show ?thesis by (simp add: unf exit_state_def)
    next
      case (Continue s)
      with "1.prems"(2) True r
      have "rle4_loop pix pix_size pal W H td s = Inr st'" by (simp add: unf)
      moreover from k Continue have "rle_inv n s" by (simp add: exit_state_def)
      ultimately show ?thesis using "1.IH" [OF True r [unfolded Continue]] by blast
    qed
  qed
qed

lemma rle8_final_inv:
  assumes "abs_width (meta img) = Inr Ww" and "rle8_final pix pix_size img = Inr st"
  shows "rle_inv (unat Ww * unat (abs_height (meta img)) * 4) st"
proof -
  from assms have "rle8_loop pix pix_size (palette img) (unat Ww)
      (unat (abs_height (meta img))) (top_down (meta img))
      (rle_init (unat Ww) (unat (abs_height (meta img)))) = Inr st"
    by (simp add: rle8_final_def bindE_def split: if_splits)
  with rle_inv_init show ?thesis by (rule rle8_loop_keeps)
qed

lemma rle4_final_inv:
  assumes "abs_width (meta img) = Inr Ww" and "rle4_final pix pix_size img = Inr st"
  shows "rle_inv (unat Ww * unat (abs_height (meta img)) * 4) st"
proof -
  from assms have "rle4_loop pix pix_size (palette img) (unat Ww)
      (unat (abs_height (meta img))) (top_down (meta img))
      (rle_init (unat Ww) (unat (abs_height (meta img)))) = Inr st"
    by (simp add: rle4_final_def bindE_def split: if_splits)
  with rle_inv_init show ?thesis by (rule rle4_loop_keeps)
qed

lemma rle_inv_pixel:
  assumes "rle_inv (n * 4) st" and "p < n" and "p \<notin> set (written st)" and "k < 4"
  shows "out_px st ! (p * 4 + k) = 0"
proof -
  from assms(2,4) have "p * 4 + k < n * 4" by simp
  moreover from assms(4) have "(p * 4 + k) div 4 = p" by simp
  ultimately show ?thesis using assms(1,3) by (simp add: rle_inv_def)
qed

text \<open>
  Claim C9: the RLE8 and the RLE4 decoder fill the whole output vector of
  \<open>width * abs(height) * 4\<close> bytes with zeros before they consume the stream, so every
  pixel position that the stream never writes holds the bytes \<open>(0, 0, 0, 0)\<close> in the
  returned image, whatever escapes skipped it and wherever the stream ended. A position
  is written when \<open>put\<close> stores at it, which the final state of the loop records in
  \<open>written\<close>.
\<close>

theorem rle_unwritten_pixels_zero:
  assumes "abs_width (meta img) = Inr Ww"
  shows "(decode_rle8 pix pix_size img = Inr img' \<longrightarrow>
            (\<exists>st. rle8_final pix pix_size img = Inr st \<and> pixels img' = out_px st
                \<and> length (pixels img') = unat Ww * unat (abs_height (meta img)) * 4
                \<and> (\<forall>p < unat Ww * unat (abs_height (meta img)).
                      p \<notin> set (written st) \<longrightarrow> (\<forall>k < 4. pixels img' ! (p * 4 + k) = 0))))
       \<and> (decode_rle4 pix pix_size img = Inr img' \<longrightarrow>
            (\<exists>st. rle4_final pix pix_size img = Inr st \<and> pixels img' = out_px st
                \<and> length (pixels img') = unat Ww * unat (abs_height (meta img)) * 4
                \<and> (\<forall>p < unat Ww * unat (abs_height (meta img)).
                      p \<notin> set (written st) \<longrightarrow> (\<forall>k < 4. pixels img' ! (p * 4 + k) = 0))))"
proof (intro conjI impI)
  assume "decode_rle8 pix pix_size img = Inr img'"
  from bindE_Inr [OF this [unfolded decode_rle8_def]] obtain st where
    f: "rle8_final pix pix_size img = Inr st" and i: "img' = img\<lparr>format := BGRA8, pixels := out_px st\<rparr>"
    by blast
  from rle8_final_inv [OF assms f] have
    inv: "rle_inv (unat Ww * unat (abs_height (meta img)) * 4) st" .
  from inv have "length (out_px st) = unat Ww * unat (abs_height (meta img)) * 4"
    by (simp add: rle_inv_def)
  with f i rle_inv_pixel [OF inv]
  show "\<exists>st. rle8_final pix pix_size img = Inr st \<and> pixels img' = out_px st
          \<and> length (pixels img') = unat Ww * unat (abs_height (meta img)) * 4
          \<and> (\<forall>p < unat Ww * unat (abs_height (meta img)).
                p \<notin> set (written st) \<longrightarrow> (\<forall>k < 4. pixels img' ! (p * 4 + k) = 0))"
    by auto
next
  assume "decode_rle4 pix pix_size img = Inr img'"
  from bindE_Inr [OF this [unfolded decode_rle4_def]] obtain st where
    f: "rle4_final pix pix_size img = Inr st" and i: "img' = img\<lparr>format := BGRA8, pixels := out_px st\<rparr>"
    by blast
  from rle4_final_inv [OF assms f] have
    inv: "rle_inv (unat Ww * unat (abs_height (meta img)) * 4) st" .
  from inv have "length (out_px st) = unat Ww * unat (abs_height (meta img)) * 4"
    by (simp add: rle_inv_def)
  with f i rle_inv_pixel [OF inv]
  show "\<exists>st. rle4_final pix pix_size img = Inr st \<and> pixels img' = out_px st
          \<and> length (pixels img') = unat Ww * unat (abs_height (meta img)) * 4
          \<and> (\<forall>p < unat Ww * unat (abs_height (meta img)).
                p \<notin> set (written st) \<longrightarrow> (\<forall>k < 4. pixels img' ! (p * 4 + k) = 0))"
    by auto
qed

text \<open>
  Claim C9 on an image of width 2 and height 1 with one palette entry and the stream
  \<open>01 00\<close>, which both decoders read as a run of one pixel of index 0 and which ends
  without the end-of-bitmap escape: pixel 0 is written and pixel 1 is not.
\<close>

definition rle_demo_image :: Image where
  "rle_demo_image =
     init_image ((init_meta 0 40 0)\<lparr>width := 2, height := 1, bpp := 8\<rparr>)
       [\<lparr>pe_b = 10, pe_g = 20, pe_r = 30, pe_a = 40\<rparr>]"

theorem rle_unwritten_pixels_zero_witness:
  "abs_width (meta rle_demo_image) = Inr 2
   \<and> unat (abs_height (meta rle_demo_image)) = 1
   \<and> decode_rle8 [1, 0] 2 rle_demo_image
       = Inr (rle_demo_image\<lparr>format := BGRA8, pixels := [10, 20, 30, 40, 0, 0, 0, 0]\<rparr>)
   \<and> written (projr (rle8_final [1, 0] 2 rle_demo_image)) = [0]
   \<and> decode_rle4 [1, 0] 2 rle_demo_image
       = Inr (rle_demo_image\<lparr>format := BGRA8, pixels := [10, 20, 30, 40, 0, 0, 0, 0]\<rparr>)
   \<and> written (projr (rle4_final [1, 0] 2 rle_demo_image)) = [0]"
proof -
  let ?img' = "rle_demo_image\<lparr>format := BGRA8, pixels := [10, 20, 30, 40, 0, 0, 0, 0]\<rparr>"
  have w: "abs_width (meta rle_demo_image) = Inr 2"
    by (simp add: rle_demo_image_def init_image_def init_meta_def abs_width_def)
  have h: "unat (abs_height (meta rle_demo_image)) = 1"
    by (simp add: rle_demo_image_def init_image_def init_meta_def abs_height_def)
  have f8: "rle8_final [1, 0] 2 rle_demo_image
      = Inr \<lparr>cur_x = 1, cur_y = 0, cur_i = 2, out_px = [10, 20, 30, 40, 0, 0, 0, 0],
             written = [0]\<rparr>"
    by (simp add: rle_demo_image_def init_image_def init_meta_def rle_defs rd_def bindE_def
                  u32_def Let_def replicate_numeral)
  have f4: "rle4_final [1, 0] 2 rle_demo_image
      = Inr \<lparr>cur_x = 1, cur_y = 0, cur_i = 2, out_px = [10, 20, 30, 40, 0, 0, 0, 0],
             written = [0]\<rparr>"
    by (simp add: rle_demo_image_def init_image_def init_meta_def rle_defs rd_def bindE_def
                  u32_def Let_def replicate_numeral)
  have d8: "decode_rle8 [1, 0] 2 rle_demo_image = Inr ?img'"
    by (simp add: decode_rle8_def f8 bindE_def)
  have d4: "decode_rle4 [1, 0] 2 rle_demo_image = Inr ?img'"
    by (simp add: decode_rle4_def f4 bindE_def)
  from rle_unwritten_pixels_zero [OF w, of "[1, 0]" 2 ?img'] d8 obtain st where
    s: "rle8_final [1, 0] 2 rle_demo_image = Inr st"
    and z: "\<forall>p < unat (2 :: 32 word) * unat (abs_height (meta rle_demo_image)).
              p \<notin> set (written st) \<longrightarrow> (\<forall>k < 4. pixels ?img' ! (p * 4 + k) = 0)"
    by blast
  from s f8 have "written st = [0]" by auto
  with z [rule_format, of 1] h have "\<And>k. k < 4 \<Longrightarrow> pixels ?img' ! (1 * 4 + k) = 0"
    by simp
  from this [of 0] this [of 1] this [of 2] this [of 3]
  have "pixels ?img' ! 4 = 0 \<and> pixels ?img' ! 5 = 0 \<and> pixels ?img' ! 6 = 0
        \<and> pixels ?img' ! 7 = 0"
    by simp
  with w h d8 d4 f8 f4 show ?thesis by simp
qed

subsection \<open>C10: 16-bpp BI_BITFIELDS without mask bytes\<close>

lemma for_loop_inv:
  assumes "\<And>i s s'. I s \<Longrightarrow> body i s = Inr s' \<Longrightarrow> I s'"
    and "I s0" and "for_loop step i n body s0 = Inr s'"
  shows "I s'"
  using assms
proof (induction step i n body s0 rule: for_loop.induct)
  case (1 step i n body s)
  note unf = for_loop.simps [of step i n body s]
  show ?case
  proof (cases "0 < step \<and> i < n")
    case False
    with "1.prems"(2,3) show ?thesis by (simp add: unf)
  next
    case True
    with "1.prems"(3) obtain s1 where
      b: "body i s = Inr s1" and r: "for_loop step (i + step) n body s1 = Inr s'"
      by (auto simp: unf split: sum.splits)
    from "1.prems"(1) [OF "1.prems"(2) b] have "I s1" .
    from "1.IH" [OF True b "1.prems"(1) this r] show ?thesis by simp
  qed
qed

text \<open>The default 32-bpp masks on a pixel word that was read as 16 bits.\<close>

lemma ctz_default:
  "ctz_loop 0xFF 0 = 0" "ctz_loop 0xFF00 0 = 8" "ctz_loop 0xFF0000 0 = 16"
  "ctz_loop 0xFF000000 0 = 24"
  by (simp_all add: ctz_loop.simps)

lemma width_default: "width_loop 0xFF 0 = 8"
  by (simp add: width_loop.simps)

lemma norm_default:
  "bit_extract_norm v 0x000000FF = ucast (v AND 0xFF)"
  "bit_extract_norm v 0x0000FF00 = ucast (drop_bit 8 (v AND 0xFF00))"
  "bit_extract_norm v 0x00FF0000 = ucast (drop_bit 16 (v AND 0xFF0000))"
  "bit_extract_norm v 0xFF000000 = ucast (drop_bit 24 (v AND 0xFF000000))"
  by (simp_all add: bit_extract_norm_def ctz_default width_default Let_def)

lemma default_masks_bits:
  "(0xFF :: 32 word) = mask 8" "(0xFF00 :: 32 word) = push_bit 8 (mask 8)"
  "(0xFF0000 :: 32 word) = push_bit 16 (mask 8)"
  "(0xFF000000 :: 32 word) = push_bit 24 (mask 8)"
  by (simp_all add: mask_eq_exp_minus_1 push_bit_eq_mult)

lemma norm16_default:
  fixes v16 :: "16 word"
  shows "bit_extract_norm (ucast v16) 0x000000FF = ucast v16"
    and "bit_extract_norm (ucast v16) 0x0000FF00 = ucast (drop_bit 8 v16)"
    and "bit_extract_norm (ucast v16) 0x00FF0000 = 0"
    and "bit_extract_norm (ucast v16) 0xFF000000 = 0"
proof -
  have "(ucast ((ucast v16 :: 32 word) AND 0xFF) :: byte) = ucast v16"
    unfolding default_masks_bits by (rule bit_eqI) (auto simp: bit_simps)
  with norm_default(1) [of "ucast v16"]
  show "bit_extract_norm (ucast v16) 0x000000FF = ucast v16"
    by (rule trans)
  have "(ucast (drop_bit 8 ((ucast v16 :: 32 word) AND 0xFF00)) :: byte)
          = ucast (drop_bit 8 v16)"
    unfolding default_masks_bits by (rule bit_eqI) (auto simp: bit_simps)
  with norm_default(2) [of "ucast v16"]
  show "bit_extract_norm (ucast v16) 0x0000FF00 = ucast (drop_bit 8 v16)"
    by (rule trans)
  have "(ucast (drop_bit 16 ((ucast v16 :: 32 word) AND 0xFF0000)) :: byte) = 0"
    unfolding default_masks_bits
    by (rule bit_eqI) (auto simp: bit_simps dest: bit_imp_le_length)
  with norm_default(3) [of "ucast v16"]
  show "bit_extract_norm (ucast v16) 0x00FF0000 = 0"
    by (rule trans)
  have "(ucast (drop_bit 24 ((ucast v16 :: 32 word) AND 0xFF000000)) :: byte) = 0"
    unfolding default_masks_bits
    by (rule bit_eqI) (auto simp: bit_simps dest: bit_imp_le_length)
  with norm_default(4) [of "ucast v16"]
  show "bit_extract_norm (ucast v16) 0xFF000000 = 0"
    by (rule trans)
qed

text \<open>The header parser on a 40-byte header in a buffer of fewer than 66 bytes.\<close>

lemma read_info_fields_keeps:
  assumes "read_info_fields dib m0 = Inr m1"
  shows "has_masks m1 = has_masks m0 \<and> header_size m1 = header_size m0"
  using assms unfolding read_info_fields_def by (auto dest!: bindE_Inr)

lemma read_masks_short:
  assumes "read_masks n dib 40 m1 = Inr m2" and "n < 66"
  shows "m2 = m1"
  using assms by (simp add: read_masks_def split: if_splits)

lemma read_dib_info_short:
  assumes "read_dib p dib 40 m0 = Inr m" and "length p < 66"
  shows "has_masks m = has_masks m0"
proof -
  from assms(1) have
    "bindE (read_info_fields dib m0) (\<lambda>m1.
       bindE (read_masks (length p) dib 40 (m1\<lparr>dib_type := win_dib_type 40\<rparr>)) (\<lambda>m2.
         bindE (Inr m2) (\<lambda>m3. Inr m3))) = Inr m"
    by (simp add: read_dib_def)
  from bindE_Inr [OF this] obtain m1 where
    i: "read_info_fields dib m0 = Inr m1"
    and "bindE (read_masks (length p) dib 40 (m1\<lparr>dib_type := win_dib_type 40\<rparr>)) (\<lambda>m2.
           bindE (Inr m2) (\<lambda>m3. Inr m3)) = Inr m"
    by blast
  from bindE_Inr [OF this(2)] obtain m2 where
    k: "read_masks (length p) dib 40 (m1\<lparr>dib_type := win_dib_type 40\<rparr>) = Inr m2"
    and "bindE (Inr m2) (\<lambda>m3. Inr m3) = Inr m"
    by blast
  then have "m = m2" by (simp add: bindE_def)
  with read_masks_short [OF k assms(2)] read_info_fields_keeps [OF i] show ?thesis by simp
qed

lemma missing_masks_header:
  assumes "parse_header p = Inr m" and "header_size m = 40" and "length p < 66"
  shows "has_masks m = False"
proof -
  from parse_header_dib [OF assms(1)] assms(2) obtain off fs where
    "read_dib p (drop 14 p) 40 (init_meta off 40 fs) = Inr m"
    by auto
  from read_dib_info_short [OF this assms(3)] show ?thesis
    by (simp add: init_meta_def)
qed

text \<open>
  One pixel under the default masks, read as a 16-bit word: blue is the low byte, green
  the high byte, red and alpha are 0.
\<close>

lemma bitfields_pixel_default16:
  assumes "bitfields_pixel pix default_masks32 2 W src y x px = Inr px'"
  shows "\<exists>v16. le16 pix (src + u32 (x * 2)) = Inr v16
           \<and> (y * W + x) * 4 + 3 < length px
           \<and> px' = px[(y * W + x) * 4 := ucast v16,
                       (y * W + x) * 4 + 1 := ucast (drop_bit 8 v16),
                       (y * W + x) * 4 + 2 := 0,
                       (y * W + x) * 4 + 3 := 0]"
proof -
  from assms have
    "bindE (bindE (le16 pix (src + u32 (x * 2))) (\<lambda>v16. Inr (ucast v16 :: 32 word))) (\<lambda>v.
       store4 px ((y * W + x) * 4) (bit_extract_norm v 0x000000FF)
         (bit_extract_norm v 0x0000FF00) (bit_extract_norm v 0x00FF0000)
         (bit_extract_norm v 0xFF000000)) = Inr px'"
    by (simp add: bitfields_pixel_def default_masks32_def)
  from bindE_Inr [OF this] obtain v :: "32 word" where
    r: "bindE (le16 pix (src + u32 (x * 2))) (\<lambda>v16. Inr (ucast v16 :: 32 word)) = Inr v"
    and s: "store4 px ((y * W + x) * 4) (bit_extract_norm v 0x000000FF)
         (bit_extract_norm v 0x0000FF00) (bit_extract_norm v 0x00FF0000)
         (bit_extract_norm v 0xFF000000) = Inr px'"
    by blast
  from bindE_Inr [OF r] obtain v16 :: "16 word" where
    l: "le16 pix (src + u32 (x * 2)) = Inr v16" and v: "v = ucast v16"
    by auto
  from s have "(y * W + x) * 4 + 3 < length px"
    and "px' = px[(y * W + x) * 4 := bit_extract_norm v 0x000000FF,
                  (y * W + x) * 4 + 1 := bit_extract_norm v 0x0000FF00,
                  (y * W + x) * 4 + 2 := bit_extract_norm v 0x00FF0000,
                  (y * W + x) * 4 + 3 := bit_extract_norm v 0xFF000000]"
    by (auto simp only: store4_def split: if_splits)
  with l show ?thesis unfolding v norm16_default by blast
qed

text \<open>The red and the alpha byte of every pixel of an output vector of \<open>n\<close> bytes are 0.\<close>

definition zero_red_alpha :: "nat \<Rightarrow> byte list \<Rightarrow> bool" where
  "zero_red_alpha n px \<longleftrightarrow> length px = n \<and> (\<forall>j < n. 2 \<le> j mod 4 \<longrightarrow> px ! j = 0)"

lemma zero_red_alpha_pixel:
  assumes "zero_red_alpha n px"
    and "bitfields_pixel pix default_masks32 2 W src y x px = Inr px'"
  shows "zero_red_alpha n px'"
proof -
  let ?o = "(y * W + x) * 4"
  from bitfields_pixel_default16 [OF assms(2)] obtain v16 :: "16 word" where
    px': "px' = px[?o := ucast v16, ?o + 1 := ucast (drop_bit 8 v16), ?o + 2 := 0, ?o + 3 := 0]"
    by blast
  show ?thesis
    unfolding zero_red_alpha_def
  proof (intro conjI allI impI)
    show "length px' = n" using assms(1) px' by (simp add: zero_red_alpha_def)
  next
    fix j assume j: "j < n" and m: "2 \<le> j mod 4"
    have o: "?o mod 4 = 0" "(?o + 1) mod 4 = 1"
      by simp (simp only: mod_mult_self3, simp)
    from m o have ne: "j \<noteq> ?o" "j \<noteq> ?o + 1" by auto
    from assms(1) j m have old: "px ! j = 0" "j < length px"
      by (simp_all add: zero_red_alpha_def)
    show "px' ! j = 0"
    proof (cases "j = ?o + 2 \<or> j = ?o + 3")
      case True
      with old(2) show ?thesis by (auto simp: px')
    next
      case False
      with ne old show ?thesis by (simp add: px')
    qed
  qed
qed

lemma decode_bitfields_default16:
  assumes "has_masks (meta img0) = False"
    and "decode_bitfields pix pix_size img0 2 = Inr img"
  shows "\<exists>Ww. abs_width (meta img0) = Inr Ww \<and> format img = BGRA8 \<and> meta img = meta img0
           \<and> zero_red_alpha (unat Ww * unat (abs_height (meta img0)) * 4) (pixels img)"
proof -
  let ?m = "meta img0"
  from bindE_Inr [OF assms(2) [unfolded decode_bitfields_def Let_def]]
  obtain Ww where w: "abs_width ?m = Inr Ww"
    and d: "(if pix_size < unat (row_stride_aligned Ww (of_nat (2 * 8))) * unat (abs_height ?m)
             then Inl (ParseError ''Pixel data truncated'')
             else if looks8 (if has_masks ?m then masks ?m else default_masks32)
             then bindE
               (for_loop 1 0 (unat (abs_height ?m))
                  (\<lambda>row. for_loop 1 0 (unat Ww)
                     (bitfields_pixel pix (if has_masks ?m then masks ?m else default_masks32)
                        2 (unat Ww)
                        (row * unat (row_stride_aligned Ww (of_nat (2 * 8))))
                        (if top_down ?m then row else unat (abs_height ?m) - 1 - row)))
                  (replicate (unat Ww * unat (abs_height ?m) * 4) 0))
               (\<lambda>px. Inr (img0\<lparr>format := BGRA8, pixels := px\<rparr>))
             else bindE
               (for_loop 1 0 (unat (abs_height ?m))
                  (\<lambda>row px. memcpy_row px
                     ((if top_down ?m then row else unat (abs_height ?m) - 1 - row)
                        * unat Ww * 2)
                     pix (row * unat (row_stride_aligned Ww (of_nat (2 * 8)))) (unat Ww * 2))
                  (replicate (unat Ww * unat (abs_height ?m) * 2) 0))
               (\<lambda>px. Inr (img0\<lparr>format := RawBitfields,
                             raw_masks := (if has_masks ?m then masks ?m else default_masks32),
                             raw_bits_per_pixel := of_nat (2 * 8), pixels := px\<rparr>))) = Inr img"
    by blast
  let ?n = "unat Ww * unat (abs_height ?m) * 4"
  have l8: "looks8 default_masks32" by (simp add: looks8_def default_masks32_def)
  from d assms(1) l8 have
    "bindE
       (for_loop 1 0 (unat (abs_height ?m))
          (\<lambda>row. for_loop 1 0 (unat Ww)
             (bitfields_pixel pix default_masks32 2 (unat Ww)
                (row * unat (row_stride_aligned Ww (of_nat (2 * 8))))
                (if top_down ?m then row else unat (abs_height ?m) - 1 - row)))
          (replicate ?n 0))
       (\<lambda>px. Inr (img0\<lparr>format := BGRA8, pixels := px\<rparr>)) = Inr img"
    by (simp split: if_splits)
  from bindE_Inr [OF this] obtain px where
    loop: "for_loop 1 0 (unat (abs_height ?m))
          (\<lambda>row. for_loop 1 0 (unat Ww)
             (bitfields_pixel pix default_masks32 2 (unat Ww)
                (row * unat (row_stride_aligned Ww (of_nat (2 * 8))))
                (if top_down ?m then row else unat (abs_height ?m) - 1 - row)))
          (replicate ?n 0) = Inr px"
    and img: "img = img0\<lparr>format := BGRA8, pixels := px\<rparr>"
    by auto
  have init: "zero_red_alpha ?n (replicate ?n 0)" by (simp add: zero_red_alpha_def)
  have "zero_red_alpha ?n px"
  proof (rule for_loop_inv [where I = "zero_red_alpha ?n", OF _ init loop])
    fix row s s'
    assume s: "zero_red_alpha ?n s"
      and r: "for_loop 1 0 (unat Ww)
               (bitfields_pixel pix default_masks32 2 (unat Ww)
                  (row * unat (row_stride_aligned Ww (of_nat (2 * 8))))
                  (if top_down ?m then row else unat (abs_height ?m) - 1 - row)) s = Inr s'"
    show "zero_red_alpha ?n s'"
      by (rule for_loop_inv [where I = "zero_red_alpha ?n", OF _ s r])
         (rule zero_red_alpha_pixel)
  qed
  with w img show ?thesis by simp
qed

text \<open>
  Without masks in the metadata the decoder works as if the default 32-bpp masks had
  been given (lines 814-816).
\<close>

lemma decode_bitfields_substitutes:
  assumes "has_masks (meta img0) = False"
  shows "decode_bitfields pix pix_size img0 n
           = map_sum id (\<lambda>i. i\<lparr>meta := meta img0\<rparr>)
               (decode_bitfields pix pix_size
                  (img0\<lparr>meta := (meta img0)\<lparr>has_masks := True, masks := default_masks32\<rparr>\<rparr>) n)"
proof -
  let ?m = "meta img0"
  let ?m' = "?m\<lparr>has_masks := True, masks := default_masks32\<rparr>"
  have same: "abs_width ?m' = abs_width ?m" "abs_height ?m' = abs_height ?m"
    "top_down ?m' = top_down ?m"
    by (simp_all add: abs_width_def abs_height_def top_down_def)
  have l8: "looks8 default_masks32" by (simp add: looks8_def default_masks32_def)
  show ?thesis
  proof (cases "abs_width ?m")
    case (Inl e)
    then show ?thesis by (simp add: decode_bitfields_def same bindE_def)
  next
    case (Inr Ww)
    show ?thesis
    proof (cases "pix_size < unat (row_stride_aligned Ww (of_nat (n * 8)))
                               * unat (abs_height ?m)")
      case True
      with Inr show ?thesis by (simp add: decode_bitfields_def same bindE_def Let_def)
    next
      case False
      with Inr assms l8 show ?thesis
        by (simp add: decode_bitfields_def same Let_def bindE_def cong: if_cong
                 split: sum.splits)
    qed
  qed
qed

lemma dispatch_bitfields16:
  assumes "bpp (meta img0) = 16" and "compression (meta img0) = BI_BITFIELDS"
  shows "decode_pixels pix pix_size img0 = decode_bitfields pix pix_size img0 2"
  using assms
  by (simp add: decode_pixels_def Let_def is_bitfields_def BI_BITFIELDS_def BI_RGB_def)

lemma parse_Inr:
  assumes "parse p = Inr img" and "parse_header p = Inr m"
  shows "\<exists>pal. decode_pixels (drop (unat (file_offset_pixels m)) p)
                  (pix_size_of (length p) m) (init_image m pal) = Inr img"
  using assms unfolding parse_def
  by (auto simp: bindE_def split: sum.splits if_splits)

text \<open>
  Claim C10 says that for every 16-bpp BI_BITFIELDS input whose 40-byte INFO header is
  not followed by 12 readable bytes of mask data, parsing succeeds with \<open>has_masks\<close>
  false, the bitfield decoder substitutes the default masks of 32 bpp, and the image
  decodes to BGRA8 with the red and the alpha channel 0. The file
  \<open>nomask16_empty_input\<close> is such an input, and the decoder rejects it: its pixel data
  is shorter than a row.
\<close>

theorem missing_masks_may_fail:
  "\<not> isl (parse_header nomask16_empty_input)
   \<and> header_size (projr (parse_header nomask16_empty_input)) = 40
   \<and> compression (projr (parse_header nomask16_empty_input)) = BI_BITFIELDS
   \<and> bpp (projr (parse_header nomask16_empty_input)) = 16
   \<and> length nomask16_empty_input < 66
   \<and> has_masks (projr (parse_header nomask16_empty_input)) = False
   \<and> parse nomask16_empty_input = Inl (ParseError ''Pixel data truncated'')"
  by (simp add: nomask16_empty_input_def header_defs packed_defs)

text \<open>
  Claim C10 as amended: for every such input the header parser leaves \<open>has_masks\<close>
  false; whenever decode returns an image for it, the image is the one that the bitfield
  decoder produces from the 16-bit pixel words under the default masks of 32 bpp: its
  format is BGRA8, and the red and the alpha byte of every pixel are 0.
\<close>

theorem missing_masks_default:
  assumes "parse_header p = Inr m" and "header_size m = 40"
    and "compression m = BI_BITFIELDS" and "bpp m = 16" and "length p < 66"
  shows "has_masks m = False
     \<and> (\<forall>img. parse p = Inr img \<longrightarrow>
           (\<exists>pal img1.
              decode_bitfields (drop (unat (file_offset_pixels m)) p)
                (pix_size_of (length p) m)
                ((init_image m pal)\<lparr>meta := m\<lparr>has_masks := True, masks := default_masks32\<rparr>\<rparr>)
                2 = Inr img1
              \<and> img = img1\<lparr>meta := m\<rparr>)
           \<and> has_masks (meta img) = False \<and> format img = BGRA8
           \<and> (\<exists>Ww. abs_width m = Inr Ww
                 \<and> length (pixels img) = unat Ww * unat (abs_height m) * 4
                 \<and> (\<forall>q < unat Ww * unat (abs_height m).
                       pixels img ! (q * 4 + 2) = 0 \<and> pixels img ! (q * 4 + 3) = 0)))"
proof (intro conjI allI impI)
  show nm: "has_masks m = False"
    using assms(1,2,5) by (rule missing_masks_header)
  fix img assume ok: "parse p = Inr img"
  let ?pix = "drop (unat (file_offset_pixels m)) p"
  let ?sz = "pix_size_of (length p) m"
  from parse_Inr [OF ok assms(1)] obtain pal where
    "decode_pixels ?pix ?sz (init_image m pal) = Inr img"
    by blast
  with assms(3,4) have d: "decode_bitfields ?pix ?sz (init_image m pal) 2 = Inr img"
    by (simp add: dispatch_bitfields16 init_image_def)
  have nm0: "has_masks (meta (init_image m pal)) = False" and m0: "meta (init_image m pal) = m"
    using nm by (simp_all add: init_image_def)
  from d decode_bitfields_substitutes [OF nm0, of ?pix ?sz 2] m0
  show "\<exists>pal img1.
          decode_bitfields ?pix ?sz
            ((init_image m pal)\<lparr>meta := m\<lparr>has_masks := True, masks := default_masks32\<rparr>\<rparr>)
            2 = Inr img1
          \<and> img = img1\<lparr>meta := m\<rparr>"
    by (cases "decode_bitfields ?pix ?sz
            ((init_image m pal)\<lparr>meta := m\<lparr>has_masks := True, masks := default_masks32\<rparr>\<rparr>) 2")
       auto
  from decode_bitfields_default16 [OF nm0 d] m0 obtain Ww where
    w: "abs_width m = Inr Ww" and f: "format img = BGRA8" and mi: "meta img = m"
    and z: "zero_red_alpha (unat Ww * unat (abs_height m) * 4) (pixels img)"
    by auto
  from mi nm show "has_masks (meta img) = False" by simp
  from f show "format img = BGRA8" .
  have "pixels img ! (q * 4 + 2) = 0 \<and> pixels img ! (q * 4 + 3) = 0"
    if "q < unat Ww * unat (abs_height m)" for q
  proof -
    from that have "q * 4 + 2 < unat Ww * unat (abs_height m) * 4"
      and "q * 4 + 3 < unat Ww * unat (abs_height m) * 4" by simp_all
    moreover have "(q * 4 + 2) mod 4 = 2" "(q * 4 + 3) mod 4 = 3"
      by (simp_all only: mod_mult_self3) simp_all
    ultimately show ?thesis using z by (simp add: zero_red_alpha_def)
  qed
  with w z show "\<exists>Ww. abs_width m = Inr Ww
       \<and> length (pixels img) = unat Ww * unat (abs_height m) * 4
       \<and> (\<forall>q < unat Ww * unat (abs_height m).
             pixels img ! (q * 4 + 2) = 0 \<and> pixels img ! (q * 4 + 3) = 0)"
    by (auto simp: zero_red_alpha_def)
qed

text \<open>
  The amended claim C10 on \<open>nomask16_input\<close>: the pixel \<open>0x1234\<close> decodes to blue
  \<open>0x34\<close>, green \<open>0x12\<close>, red 0 and alpha 0.
\<close>

theorem missing_masks_default_witness:
  "parse_header nomask16_input = Inr (projr (parse_header nomask16_input))
   \<and> header_size (projr (parse_header nomask16_input)) = 40
   \<and> compression (projr (parse_header nomask16_input)) = BI_BITFIELDS
   \<and> bpp (projr (parse_header nomask16_input)) = 16
   \<and> length nomask16_input < 66
   \<and> has_masks (projr (parse_header nomask16_input)) = False
   \<and> \<not> isl (parse nomask16_input)
   \<and> format (projr (parse nomask16_input)) = BGRA8
   \<and> pixels (projr (parse nomask16_input)) = [0x34, 0x12, 0, 0]"
proof -
  let ?m = "projr (parse_header nomask16_input)"
  have h: "parse_header nomask16_input = Inr ?m"
    by (simp add: nomask16_input_def header_defs)
  have s: "header_size ?m = 40" and c: "compression ?m = BI_BITFIELDS" and b: "bpp ?m = 16"
    by (simp_all add: nomask16_input_def header_defs)
  have l: "length nomask16_input < 66" by (simp add: nomask16_input_def)
  have ok: "\<not> isl (parse nomask16_input)"
    and px: "pixels (projr (parse nomask16_input)) = [0x34, 0x12, 0, 0]"
    by (simp_all add: nomask16_input_def header_defs packed_defs norm_default
                      replicate_numeral)
  from ok obtain img where i: "parse nomask16_input = Inr img"
    by (cases "parse nomask16_input") auto
  note t = missing_masks_default [OF h s c b l]
  from t have nm: "has_masks ?m = False" by (rule conjunct1)
  from t [THEN conjunct2, rule_format, OF i] have "format img = BGRA8" by blast
  with i have f: "format (projr (parse nomask16_input)) = BGRA8" by simp
  from h s c b l nm ok f px show ?thesis by simp
qed

section \<open>Further properties of the decoder\<close>

text \<open>The delta escape of RLE8 leaves \<open>x\<close> at most the width and \<open>y\<close> at most the height.\<close>

theorem rle8_delta_clamps:
  "cur_x (rle8_delta W H dx dy st) \<le> W \<and> cur_y (rle8_delta W H dx dy st) \<le> H"
  by (simp add: rle8_delta_def Let_def)

text \<open>The row stride is a multiple of four.\<close>

theorem row_stride_multiple_of_4: "unat (row_stride_aligned w b) mod 4 = 0"
proof -
  define y :: "32 word" where "y = row_stride_aligned w b"
  have "take_bit 2 y = 0"
    unfolding y_def row_stride_aligned_def Let_def
    by (rule bit_eqI) (auto simp: bit_simps)
  then have "take_bit 2 (unat y) = 0"
    by (simp add: unsigned_take_bit_eq [symmetric])
  then show ?thesis by (simp add: take_bit_eq_mod y_def)
qed

text \<open>
  Scenario S1 of the specification: the two rows are copied without their padding, in
  top-down order.
\<close>

theorem scenario_s1:
  "\<not> isl (parse s1_input) \<and> format (projr (parse s1_input)) = BGR8
   \<and> pixels (projr (parse s1_input))
       = [0x00, 0x00, 0xFF, 0x00, 0x00, 0xFF, 0x00, 0x00, 0xFF, 0x00, 0x00, 0xFF]"
  by (simp add: s1_input_def header_defs packed_defs replicate_numeral)

text \<open>Scenario S2: the default masks of 32 bpp give the four source bytes as BGRA8.\<close>

theorem scenario_s2:
  "\<not> isl (parse s2_input) \<and> format (projr (parse s2_input)) = BGRA8
   \<and> pixels (projr (parse s2_input)) = [0x11, 0x22, 0x33, 0x44]"
  by (simp add: s2_input_def header_defs packed_defs norm_default replicate_numeral)

text \<open>Scenario S3: the indices 1 and 0 are looked up in the palette.\<close>

theorem scenario_s3:
  "\<not> isl (parse s3_input) \<and> format (projr (parse s3_input)) = BGRA8
   \<and> pixels (projr (parse s3_input)) = [0xFF, 0xFF, 0xFF, 0x00, 0x00, 0x00, 0x00, 0x00]"
  by (simp add: s3_input_def header_defs decode_indexed_uncompressed_def indexed_row_def
                put_px_def pal_lookup_def store4_def abs_width_def abs_height_def
                top_down_def row_stride_aligned_def replicate_numeral)

text \<open>
  Scenario S6: masks that are not 8 bits wide give the format \<open>RawBitfields\<close>, the masks
  as read and the source bytes.
\<close>

theorem scenario_s6:
  "\<not> isl (parse s6_input) \<and> format (projr (parse s6_input)) = RawBitfields
   \<and> raw_bits_per_pixel (projr (parse s6_input)) = 32
   \<and> raw_masks (projr (parse s6_input))
       = \<lparr>mask_r = 0x3FF00000, mask_g = 0x000FFC00, mask_b = 0x000003FF,
          mask_a = 0xC0000000\<rparr>
   \<and> pixels (projr (parse s6_input)) = [0x78, 0x56, 0x34, 0x12]"
  by (simp add: s6_input_def header_defs packed_defs replicate_numeral)

end
